theory Spec2Isabelle
  imports Main "HOL-Library.AList"
begin

section \<open>Library values the scheduler relies on\<close>

subsection \<open>Decimal rendering of integers\<close>

text \<open>
  Python's \<^verbatim>\<open>str(n)\<close> for an integer, and its inverse on digit strings.
\<close>

fun digits :: "nat \<Rightarrow> string" where
  "digits n = (if n < 10 then [char_of (48 + n)]
               else digits (n div 10) @ [char_of (48 + n mod 10)])"

declare digits.simps [simp del]

definition str_int :: "int \<Rightarrow> string" where
  "str_int i = (if i < 0 then CHR ''-'' # digits (nat (- i)) else digits (nat i))"

definition digit_val :: "char \<Rightarrow> nat option" where
  "digit_val c = (let v = (of_char c :: nat) in if 48 \<le> v \<and> v \<le> 57 then Some (v - 48) else None)"

fun parse_digits :: "nat \<Rightarrow> string \<Rightarrow> nat option" where
  "parse_digits acc [] = Some acc"
| "parse_digits acc (c # cs) =
     (case digit_val c of None \<Rightarrow> None | Some d \<Rightarrow> parse_digits (10 * acc + d) cs)"

definition parse_nat :: "string \<Rightarrow> nat option" where
  "parse_nat s = (if s = [] then None else parse_digits 0 s)"

subsection \<open>Exceptions and outcomes\<close>

text \<open>
  The exceptions of class \<^verbatim>\<open>Exception\<close> that the scheduler's own statements can raise.
  \<open>KeyError\<close> carries the missing key; \<open>OSError\<close> and \<open>JSONDecodeError\<close> carry the
  message the operating system or the JSON parser supplied. \<open>IllTyped\<close> is not a Python
  exception: it marks a persisted field whose JSON type differs from the type annotation
  of the attribute it is loaded into (Python would carry such a value along unchecked; the
  typed record below cannot hold it, so such files lie outside this model).
\<close>

datatype exn =
    KeyError string
  | ValueError
  | TypeError
  | OSError string
  | JSONDecodeError string
  | IllTyped

text \<open>
  How a call ends. \<open>Raises\<close> is a raise of class \<^verbatim>\<open>Exception\<close>, which a handler
  \<^verbatim>\<open>except Exception\<close> catches. \<open>Escapes\<close> is a raise outside that class
  (\<^verbatim>\<open>SystemExit\<close>, \<^verbatim>\<open>KeyboardInterrupt\<close>, \<^verbatim>\<open>GeneratorExit\<close>), carried by its message,
  which such a handler lets through.
\<close>

datatype 'a outcome = Returns 'a | Raises exn | Escapes string

definition and_then :: "exn + 'a \<Rightarrow> ('a \<Rightarrow> exn + 'b) \<Rightarrow> exn + 'b" where
  "and_then r f = (case r of Inl e \<Rightarrow> Inl e | Inr x \<Rightarrow> f x)"

subsection \<open>Points in time\<close>

text \<open>
  The wall-clock reading of a \<^verbatim>\<open>datetime\<close> is a point on the microsecond time line
  that starts at \<^verbatim>\<open>datetime.min\<close> (0001-01-01T00:00:00); \<^verbatim>\<open>datetime.max\<close> is
  9999-12-31T23:59:59.999999, which is \<open>MAXDT\<close> microseconds later. A \<^verbatim>\<open>datetime\<close> is
  naive, or aware: then it also carries its offset from UTC, in microseconds, strictly
  between minus and plus one day. \<^verbatim>\<open>datetime.now()\<close> is naive.
\<close>

datatype datetime = Naive nat | Aware nat int

definition MAXDT :: nat where
  "MAXDT = 315537897599999999"

definition valid_datetime :: "datetime \<Rightarrow> bool" where
  "valid_datetime d =
     (case d of
        Naive n \<Rightarrow> n \<le> MAXDT
      | Aware n off \<Rightarrow> n \<le> MAXDT \<and> - 86400000000 < off \<and> off < 86400000000)"

text \<open>
  \<^verbatim>\<open>d <= now\<close> for a stored value \<open>d\<close> and a naive \<open>now\<close>. Comparing
  \<^verbatim>\<open>None\<close> with a \<^verbatim>\<open>datetime\<close>, or an aware with a naive one, raises
  \<^verbatim>\<open>TypeError\<close>.
\<close>

fun le_now :: "datetime option \<Rightarrow> nat \<Rightarrow> exn + bool" where
  "le_now None now = Inl TypeError"
| "le_now (Some (Aware n off)) now = Inl TypeError"
| "le_now (Some (Naive n)) now = Inr (n \<le> now)"

text \<open>
  \<^verbatim>\<open>dt + timedelta(minutes=m)\<close> for a naive \<open>dt\<close>, on wall-clock readings. Either step
  raises \<^verbatim>\<open>OverflowError\<close>: building
  the \<^verbatim>\<open>timedelta\<close> when its day count leaves the supported range, and the addition
  when the sum leaves \<^verbatim>\<open>datetime.min .. datetime.max\<close>. The error is returned as
  its message (\<^verbatim>\<open>str(e)\<close> in CPython), the only part of it the scheduler uses.
\<close>

definition add_minutes :: "nat \<Rightarrow> int \<Rightarrow> string + nat" where
  "add_minutes dt m =
     (let days = m div 1440; r = int dt + m * 60000000 in
      if days < - 2147483648 \<or> 2147483647 < days then
        Inl ''Python int too large to convert to C int''
      else if days < - 999999999 \<or> 999999999 < days then
        Inl (''days='' @ str_int days @ ''; must have magnitude <= 999999999'')
      else if r < 0 \<or> int MAXDT < r then Inl ''date value out of range''
      else Inr (nat r))"

text \<open>
  \<^verbatim>\<open>datetime.isoformat\<close> and \<^verbatim>\<open>datetime.fromisoformat\<close>. The scheduler uses the pair
  only as a codec: the text written for a point in time is read back as that point, and
  text that is not a rendering of a valid \<^verbatim>\<open>datetime\<close> is rejected with
  \<^verbatim>\<open>ValueError\<close>. The calendar layout of the text plays no role in the scheduler, so the
  codec is represented here by the decimal rendering of the microsecond count, followed
  for an aware value by the sign and the decimal rendering of its offset.
\<close>

definition isoformat :: "datetime \<Rightarrow> string" where
  "isoformat d =
     (case d of
        Naive n \<Rightarrow> digits n
      | Aware n off \<Rightarrow>
          digits n @ (if off < 0 then CHR ''-'' else CHR ''+'') # digits (nat \<bar>off\<bar>))"

definition is_digit :: "char \<Rightarrow> bool" where
  "is_digit c = (digit_val c \<noteq> None)"

definition fromisoformat :: "string \<Rightarrow> exn + datetime" where
  "fromisoformat s =
     (case parse_nat (takeWhile is_digit s) of
        None \<Rightarrow> Inl ValueError
      | Some n \<Rightarrow>
          (case dropWhile is_digit s of
             [] \<Rightarrow> if valid_datetime (Naive n) then Inr (Naive n) else Inl ValueError
           | c # rest \<Rightarrow>
               if c = CHR ''+'' \<or> c = CHR ''-'' then
                 (case parse_nat rest of
                    None \<Rightarrow> Inl ValueError
                  | Some m \<Rightarrow>
                      (let off = (if c = CHR ''-'' then - int m else int m) in
                       if valid_datetime (Aware n off) then Inr (Aware n off)
                       else Inl ValueError))
               else Inl ValueError))"

subsection \<open>JSON values\<close>

text \<open>
  What \<^verbatim>\<open>json.load\<close> returns and \<^verbatim>\<open>json.dump\<close> accepts: \<^verbatim>\<open>None\<close>, booleans,
  integers, strings, lists, and dictionaries with string keys (in key order).
\<close>

datatype json =
    JNull
  | JBool bool
  | JInt int
  | JStr string
  | JArr "json list"
  | JObj "(string \<times> json) list"

text \<open>Python's truth value of a loaded JSON value.\<close>

fun truthy :: "json \<Rightarrow> bool" where
  "truthy JNull = False"
| "truthy (JBool b) = b"
| "truthy (JInt i) = (i \<noteq> 0)"
| "truthy (JStr s) = (s \<noteq> [])"
| "truthy (JArr xs) = (xs \<noteq> [])"
| "truthy (JObj kvs) = (kvs \<noteq> [])"

text \<open>\<^verbatim>\<open>d[k]\<close> and \<^verbatim>\<open>d.get(k, default)\<close> on a loaded dictionary.\<close>

definition subscript :: "(string \<times> json) list \<Rightarrow> string \<Rightarrow> exn + json" where
  "subscript kvs k = (case map_of kvs k of None \<Rightarrow> Inl (KeyError k) | Some v \<Rightarrow> Inr v)"

definition dict_get :: "(string \<times> json) list \<Rightarrow> string \<Rightarrow> json \<Rightarrow> json" where
  "dict_get kvs k dflt = (case map_of kvs k of None \<Rightarrow> dflt | Some v \<Rightarrow> v)"

text \<open>
  \<^verbatim>\<open>for x in v\<close> over a loaded JSON value: a list yields its elements, a dictionary
  its keys, a string its characters; anything else is not iterable.
\<close>

fun py_iter :: "json \<Rightarrow> exn + json list" where
  "py_iter (JArr xs) = Inr xs"
| "py_iter (JObj kvs) = Inr (map (\<lambda>kv. JStr (fst kv)) kvs)"
| "py_iter (JStr s) = Inr (map (\<lambda>c. JStr [c]) s)"
| "py_iter _ = Inl TypeError"

text \<open>Reading a loaded value into an attribute annotated \<^verbatim>\<open>str\<close>, \<^verbatim>\<open>bool\<close>, \<^verbatim>\<open>int\<close>.\<close>

fun as_str :: "json \<Rightarrow> exn + string" where
  "as_str (JStr s) = Inr s"
| "as_str _ = Inl IllTyped"

fun as_bool :: "json \<Rightarrow> exn + bool" where
  "as_bool (JBool b) = Inr b"
| "as_bool _ = Inl IllTyped"

fun as_int :: "json \<Rightarrow> exn + int" where
  "as_int (JInt i) = Inr i"
| "as_int _ = Inl IllTyped"

text \<open>\<^verbatim>\<open>datetime.fromisoformat(v)\<close> on a loaded value: only a string is accepted.\<close>

fun fromisoformat_value :: "json \<Rightarrow> exn + datetime" where
  "fromisoformat_value (JStr s) = fromisoformat s"
| "fromisoformat_value _ = Inl TypeError"

section \<open>Tasks\<close>

datatype TaskType = UPLOAD | DOWNLOAD | DELETE

datatype TaskStatus = PENDING | RUNNING | COMPLETED | FAILED | CANCELLED

fun TaskType_value :: "TaskType \<Rightarrow> string" where
  "TaskType_value UPLOAD = ''upload''"
| "TaskType_value DOWNLOAD = ''download''"
| "TaskType_value DELETE = ''delete''"

fun TaskStatus_value :: "TaskStatus \<Rightarrow> string" where
  "TaskStatus_value PENDING = ''pending''"
| "TaskStatus_value RUNNING = ''running''"
| "TaskStatus_value COMPLETED = ''completed''"
| "TaskStatus_value FAILED = ''failed''"
| "TaskStatus_value CANCELLED = ''cancelled''"

text \<open>
  \<^verbatim>\<open>TaskType(v)\<close> and \<^verbatim>\<open>TaskStatus(v)\<close>: the member whose value is \<open>v\<close>, and
  \<^verbatim>\<open>ValueError\<close> for every other value, of whatever type.
\<close>

definition TaskType_of :: "json \<Rightarrow> exn + TaskType" where
  "TaskType_of v =
     (if v = JStr ''upload'' then Inr UPLOAD
      else if v = JStr ''download'' then Inr DOWNLOAD
      else if v = JStr ''delete'' then Inr DELETE
      else Inl ValueError)"

definition TaskStatus_of :: "json \<Rightarrow> exn + TaskStatus" where
  "TaskStatus_of v =
     (if v = JStr ''pending'' then Inr PENDING
      else if v = JStr ''running'' then Inr RUNNING
      else if v = JStr ''completed'' then Inr COMPLETED
      else if v = JStr ''failed'' then Inr FAILED
      else if v = JStr ''cancelled'' then Inr CANCELLED
      else Inl ValueError)"

record ScheduledTask =
  task_id :: string
  task_type :: TaskType
  source_path :: string
  dest_path :: string
  scheduled_time :: datetime
  recurring :: bool
  interval_minutes :: int
  status :: TaskStatus
  last_run :: "datetime option"
  next_run :: "datetime option"
  error_message :: string

section \<open>The environment\<close>

text \<open>
  Everything outside the scheduler object that its methods read or write: the system
  clock, the file system, and the logger's output.
  \<^item> \<open>clock\<close> and \<open>ticks\<close>: the \<open>n\<close>-th call of \<^verbatim>\<open>datetime.now()\<close> returns the
    naive \<^verbatim>\<open>datetime\<close> with wall-clock reading \<open>clock n\<close>; no relation between
    successive readings is assumed.
  \<^item> \<open>files\<close>: for each path, whether the file is missing, present but failing in
    \<^verbatim>\<open>open\<close> or \<^verbatim>\<open>json.load\<close> (with the exception raised), or holding a JSON value.
  \<^item> \<open>write_error\<close>: for each path, whether and how writing it fails. Either
    \<^verbatim>\<open>open(path, 'w')\<close> raises \<^verbatim>\<open>OSError\<close> with the given message, and the file is
    untouched; or \<^verbatim>\<open>open\<close> succeeds, which truncates the file, and \<^verbatim>\<open>json.dump\<close> then
    raises the given exception, which leaves an incomplete text on which \<^verbatim>\<open>json.load\<close>
    fails with the given message.
  \<^item> \<open>logged\<close>: the records handed to the logger, oldest first.
  \<^item> \<open>slept\<close>: the seconds spent in \<^verbatim>\<open>time.sleep\<close>.
  \<^item> \<open>calls\<close>: a history variable, not program state: the position (in the store's
    iteration order) of the task of each call of \<^verbatim>\<open>_execute_task\<close>, oldest first.
\<close>

datatype file_state = Missing | Unreadable exn | Content json

datatype write_failure = Open_fails string | Dump_fails exn string

datatype level = INFO | WARNING | ERROR

datatype log_msg =
    Added_task string
  | Removed_task string
  | Scheduler_already_running
  | Scheduler_started
  | Scheduler_stopped
  | Scheduler_error exn
  | No_task_executor_set
  | Executing_task string
  | Will_run_again string datetime
  | Task_completed string
  | Task_failed string
  | Task_error string string
  | Failed_to_save exn
  | Loaded nat
  | Failed_to_load exn

record world =
  clock :: "nat \<Rightarrow> nat"
  ticks :: nat
  files :: "string \<Rightarrow> file_state"
  write_error :: "string \<Rightarrow> write_failure option"
  logged :: "(level \<times> log_msg) list"
  slept :: nat
  calls :: "nat list"

definition datetime_now :: "world \<Rightarrow> nat \<times> world" where
  "datetime_now w = (clock w (ticks w), w\<lparr>ticks := Suc (ticks w)\<rparr>)"

definition logger :: "level \<Rightarrow> log_msg \<Rightarrow> world \<Rightarrow> world" where
  "logger l m w = w\<lparr>logged := logged w @ [(l, m)]\<rparr>"

section \<open>Constructing and serialising a task\<close>

text \<open>
  \<^verbatim>\<open>ScheduledTask.__init__\<close>. The clock is read only when no scheduled time is given.
\<close>

definition ScheduledTask_init ::
  "string \<Rightarrow> TaskType \<Rightarrow> string \<Rightarrow> string \<Rightarrow> datetime option \<Rightarrow> bool \<Rightarrow> int \<Rightarrow> world
     \<Rightarrow> ScheduledTask \<times> world" where
  "ScheduledTask_init tid ty src dst sched rec ivl w =
     (let (st, w') =
        (case sched of
           Some t \<Rightarrow> (t, w)
         | None \<Rightarrow> (case datetime_now w of (now, w1) \<Rightarrow> (Naive now, w1)))
      in
      (\<lparr>task_id = tid, task_type = ty, source_path = src, dest_path = dst,
        scheduled_time = st, recurring = rec, interval_minutes = ivl,
        status = PENDING, last_run = None, next_run = Some st, error_message = ''''\<rparr>, w'))"

definition isoformat_opt :: "datetime option \<Rightarrow> json" where
  "isoformat_opt d = (case d of None \<Rightarrow> JNull | Some t \<Rightarrow> JStr (isoformat t))"

definition to_dict :: "ScheduledTask \<Rightarrow> json" where
  "to_dict t = JObj
     [(''task_id'', JStr (task_id t)),
      (''task_type'', JStr (TaskType_value (task_type t))),
      (''source_path'', JStr (source_path t)),
      (''dest_path'', JStr (dest_path t)),
      (''scheduled_time'', JStr (isoformat (scheduled_time t))),
      (''recurring'', JBool (recurring t)),
      (''interval_minutes'', JInt (interval_minutes t)),
      (''status'', JStr (TaskStatus_value (status t))),
      (''last_run'', isoformat_opt (last_run t)),
      (''next_run'', isoformat_opt (next_run t)),
      (''error_message'', JStr (error_message t))]"

text \<open>
  \<^verbatim>\<open>datetime.fromisoformat(data[k]) if data.get(k) else None\<close>
\<close>

definition fromisoformat_opt :: "(string \<times> json) list \<Rightarrow> string \<Rightarrow> exn + datetime option" where
  "fromisoformat_opt kvs k =
     (if truthy (dict_get kvs k JNull)
      then and_then (and_then (subscript kvs k) fromisoformat_value) (\<lambda>t. Inr (Some t))
      else Inr None)"

text \<open>
  \<^verbatim>\<open>ScheduledTask.from_dict\<close> on a dictionary, with the lookups in the order in which
  Python evaluates them. The constructor is handed a scheduled time, so it does not read
  the clock; the attributes it initialises are then overwritten from the dictionary.
\<close>

definition from_record :: "(string \<times> json) list \<Rightarrow> exn + ScheduledTask" where
  "from_record kvs =
     and_then (and_then (subscript kvs ''task_id'') as_str) (\<lambda>tid.
     and_then (and_then (subscript kvs ''task_type'') TaskType_of) (\<lambda>ty.
     and_then (and_then (subscript kvs ''source_path'') as_str) (\<lambda>src.
     and_then (as_str (dict_get kvs ''dest_path'' (JStr ''''))) (\<lambda>dst.
     and_then (and_then (subscript kvs ''scheduled_time'') fromisoformat_value) (\<lambda>st.
     and_then (as_bool (dict_get kvs ''recurring'' (JBool False))) (\<lambda>rec.
     and_then (as_int (dict_get kvs ''interval_minutes'' (JInt 0))) (\<lambda>ivl.
     and_then (TaskStatus_of (dict_get kvs ''status'' (JStr ''pending''))) (\<lambda>stat.
     and_then (fromisoformat_opt kvs ''last_run'') (\<lambda>lr.
     and_then (fromisoformat_opt kvs ''next_run'') (\<lambda>nr.
     and_then (as_str (dict_get kvs ''error_message'' (JStr ''''))) (\<lambda>msg.
       Inr \<lparr>task_id = tid, task_type = ty, source_path = src, dest_path = dst,
            scheduled_time = st, recurring = rec, interval_minutes = ivl,
            status = stat, last_run = lr, next_run = nr, error_message = msg\<rparr>)))))))))))"

text \<open>
  \<^verbatim>\<open>from_dict\<close> on any loaded value: subscripting anything but a dictionary with a
  string raises \<^verbatim>\<open>TypeError\<close> at the first lookup.
\<close>

fun from_dict :: "json \<Rightarrow> exn + ScheduledTask" where
  "from_dict (JObj kvs) = from_record kvs"
| "from_dict _ = Inl TypeError"

section \<open>The scheduler object\<close>

text \<open>
  The executor is an arbitrary callable: it returns a truth value or raises, and may answer
  differently from one call to the next, so it is indexed by the number of earlier calls.
  \<open>Raised\<close> is a raise of class \<^verbatim>\<open>Exception\<close>, \<open>Escaped\<close> a raise outside that
  class (\<^verbatim>\<open>SystemExit\<close>, \<^verbatim>\<open>KeyboardInterrupt\<close>, \<^verbatim>\<open>GeneratorExit\<close>); either is
  represented by its message.
\<close>

datatype exec_result = Returned bool | Raised string | Escaped string

text \<open>
  \<open>tasks\<close> is the dictionary in insertion order: storing under a present key keeps the
  key's place, storing under a new key appends.
\<close>

record TaskScheduler =
  tasks_file :: string
  tasks :: "(string \<times> ScheduledTask) list"
  running :: bool
  task_executor :: "(nat \<Rightarrow> ScheduledTask \<Rightarrow> exec_result) option"

subsection \<open>Persistence\<close>

text \<open>The body of the \<^verbatim>\<open>try\<close> in \<^verbatim>\<open>save_tasks\<close>.\<close>

definition save_tasks_try :: "TaskScheduler \<Rightarrow> world \<Rightarrow> unit outcome \<times> world" where
  "save_tasks_try s w =
     (let tasks_data = map (\<lambda>kv. to_dict (snd kv)) (tasks s) in
      case write_error w (tasks_file s) of
        Some (Open_fails msg) \<Rightarrow> (Raises (OSError msg), w)
      | Some (Dump_fails e msg) \<Rightarrow>
          (Raises e, w\<lparr>files := (files w)(tasks_file s := Unreadable (JSONDecodeError msg))\<rparr>)
      | None \<Rightarrow> (Returns (), w\<lparr>files := (files w)(tasks_file s := Content (JArr tasks_data))\<rparr>))"

definition save_tasks :: "TaskScheduler \<Rightarrow> world \<Rightarrow> unit outcome \<times> world" where
  "save_tasks s w =
     (case save_tasks_try s w of
        (Raises e, w') \<Rightarrow> (Returns (), logger ERROR (Failed_to_save e) w')
      | (r, w') \<Rightarrow> (r, w'))"

text \<open>
  The \<^verbatim>\<open>for\<close> loop of \<^verbatim>\<open>load_tasks\<close>; the accumulator is \<^verbatim>\<open>self.tasks\<close>, which keeps
  what was stored before a record raises.
\<close>

fun load_records :: "json list \<Rightarrow> (string \<times> ScheduledTask) list
     \<Rightarrow> exn option \<times> (string \<times> ScheduledTask) list" where
  "load_records [] ts = (None, ts)"
| "load_records (d # ds) ts =
     (case from_dict d of
        Inl e \<Rightarrow> (Some e, ts)
      | Inr task \<Rightarrow> load_records ds (AList.update (task_id task) task ts))"

text \<open>The body of the \<^verbatim>\<open>try\<close> in \<^verbatim>\<open>load_tasks\<close>.\<close>

definition load_tasks_try :: "TaskScheduler \<Rightarrow> world \<Rightarrow> unit outcome \<times> TaskScheduler \<times> world" where
  "load_tasks_try s w =
     (case files w (tasks_file s) of
        Missing \<Rightarrow> (Raises (OSError ''No such file or directory''), s, w)
      | Unreadable e \<Rightarrow> (Raises e, s, w)
      | Content tasks_data \<Rightarrow>
          (let s0 = s\<lparr>tasks := []\<rparr> in
           case py_iter tasks_data of
             Inl e \<Rightarrow> (Raises e, s0, w)
           | Inr ds \<Rightarrow>
               (case load_records ds (tasks s0) of
                  (Some e, ts) \<Rightarrow> (Raises e, s0\<lparr>tasks := ts\<rparr>, w)
                | (None, ts) \<Rightarrow>
                    (Returns (), s0\<lparr>tasks := ts\<rparr>, logger INFO (Loaded (length ts)) w))))"

definition load_tasks :: "TaskScheduler \<Rightarrow> world \<Rightarrow> unit outcome \<times> TaskScheduler \<times> world" where
  "load_tasks s w =
     (if files w (tasks_file s) = Missing then (Returns (), s, w)
      else case load_tasks_try s w of
             (Raises e, s', w') \<Rightarrow> (Returns (), s', logger ERROR (Failed_to_load e) w')
           | (r, s', w') \<Rightarrow> (r, s', w'))"

text \<open>\<^verbatim>\<open>TaskScheduler.__init__\<close>\<close>

definition TaskScheduler_init :: "string \<Rightarrow> world \<Rightarrow> unit outcome \<times> TaskScheduler \<times> world" where
  "TaskScheduler_init file w =
     load_tasks \<lparr>tasks_file = file, tasks = [], running = False, task_executor = None\<rparr> w"

subsection \<open>The facade\<close>

definition set_task_executor ::
  "(nat \<Rightarrow> ScheduledTask \<Rightarrow> exec_result) \<Rightarrow> TaskScheduler \<Rightarrow> TaskScheduler" where
  "set_task_executor executor s = s\<lparr>task_executor := Some executor\<rparr>"

definition add_task :: "ScheduledTask \<Rightarrow> TaskScheduler \<Rightarrow> world
     \<Rightarrow> unit outcome \<times> TaskScheduler \<times> world" where
  "add_task task s w =
     (let s1 = s\<lparr>tasks := AList.update (task_id task) task (tasks s)\<rparr> in
      case save_tasks s1 w of
        (Returns u, w1) \<Rightarrow> (Returns (), s1, logger INFO (Added_task (task_id task)) w1)
      | (Raises e, w1) \<Rightarrow> (Raises e, s1, w1)
      | (Escapes m, w1) \<Rightarrow> (Escapes m, s1, w1))"

definition remove_task :: "string \<Rightarrow> TaskScheduler \<Rightarrow> world
     \<Rightarrow> bool outcome \<times> TaskScheduler \<times> world" where
  "remove_task tid s w =
     (if tid \<in> fst ` set (tasks s) then
        (let s1 = s\<lparr>tasks := AList.delete tid (tasks s)\<rparr> in
         case save_tasks s1 w of
           (Returns u, w1) \<Rightarrow> (Returns True, s1, logger INFO (Removed_task tid) w1)
         | (Raises e, w1) \<Rightarrow> (Raises e, s1, w1)
         | (Escapes m, w1) \<Rightarrow> (Escapes m, s1, w1))
      else (Returns False, s, w))"

definition get_task :: "string \<Rightarrow> TaskScheduler \<Rightarrow> ScheduledTask option" where
  "get_task tid s = map_of (tasks s) tid"

definition get_all_tasks :: "TaskScheduler \<Rightarrow> ScheduledTask list" where
  "get_all_tasks s = map snd (tasks s)"

text \<open>
  \<^verbatim>\<open>start\<close> and \<^verbatim>\<open>stop\<close>, as far as the scheduler object and the log go. The thread
  that \<^verbatim>\<open>start\<close> creates runs \<^verbatim>\<open>_scheduler_loop\<close>, given below; how its passes
  interleave with the caller's thread is outside this model.
\<close>

definition start :: "TaskScheduler \<Rightarrow> world \<Rightarrow> TaskScheduler \<times> world" where
  "start s w =
     (if running s then (s, logger WARNING Scheduler_already_running w)
      else (s\<lparr>running := True\<rparr>, logger INFO Scheduler_started w))"

definition stop :: "TaskScheduler \<Rightarrow> world \<Rightarrow> TaskScheduler \<times> world" where
  "stop s w = (s\<lparr>running := False\<rparr>, logger INFO Scheduler_stopped w)"

subsection \<open>Executing one task\<close>

text \<open>
  What can leave the \<^verbatim>\<open>try\<close> of \<^verbatim>\<open>_execute_task\<close> by a raise: an \<^verbatim>\<open>Exception\<close>
  (the executor's own, or the \<^verbatim>\<open>OverflowError\<close> of the date arithmetic), which the
  handler catches and of which it uses the message; or a raise outside that class, which
  the handler does not catch.
\<close>

datatype raised = Exception string | NonException string

text \<open>
  The body of the \<^verbatim>\<open>try\<close> in \<^verbatim>\<open>_execute_task\<close>, for the \<open>n\<close>-th call of the
  executor. A raise is returned together with the task as the body left it; the
  \<^verbatim>\<open>OverflowError\<close> comes after the status and the last run were assigned.
\<close>

definition execute_try ::
  "(nat \<Rightarrow> ScheduledTask \<Rightarrow> exec_result) \<Rightarrow> nat \<Rightarrow> ScheduledTask \<Rightarrow> world
     \<Rightarrow> (raised + unit) \<times> ScheduledTask \<times> world" where
  "execute_try executor n task w =
     (case executor n task of
        Raised msg \<Rightarrow> (Inl (Exception msg), task, w)
      | Escaped msg \<Rightarrow> (Inl (NonException msg), task, w)
      | Returned success \<Rightarrow>
          if success then
            (let task1 = task\<lparr>status := COMPLETED\<rparr>;
                 (t1, w1) = datetime_now w;
                 task2 = task1\<lparr>last_run := Some (Naive t1)\<rparr>
             in if recurring task2 \<and> interval_minutes task2 > 0 then
                  (let (t2, w2) = datetime_now w1 in
                   case add_minutes t2 (interval_minutes task2) of
                     Inl msg \<Rightarrow> (Inl (Exception msg), task2, w2)
                   | Inr nr \<Rightarrow>
                       (let task3 = task2\<lparr>next_run := Some (Naive nr)\<rparr>;
                            task4 = task3\<lparr>status := PENDING\<rparr>
                        in (Inr (), task4,
                            logger INFO (Will_run_again (task_id task4) (Naive nr)) w2)))
                else (Inr (), task2, logger INFO (Task_completed (task_id task2)) w1))
          else
            (let task1 = task\<lparr>status := FAILED\<rparr>;
                 task2 = task1\<lparr>error_message := ''Task execution failed''\<rparr>
             in (Inr (), task2, logger ERROR (Task_failed (task_id task2)) w)))"

text \<open>The last statement of \<^verbatim>\<open>_execute_task\<close>: \<^verbatim>\<open>self.save_tasks()\<close>.\<close>

definition then_save :: "TaskScheduler \<Rightarrow> world \<Rightarrow> unit outcome \<times> TaskScheduler \<times> world" where
  "then_save s w = (case save_tasks s w of (r, w') \<Rightarrow> (r, s, w'))"

text \<open>
  \<^verbatim>\<open>_execute_task\<close> on the task at position \<open>i\<close> of the store. The task object is
  shared with the store, so assigning to its attributes updates the store's entry in place.
  A raise that the handler does not catch leaves the method at once: the task keeps the
  status \<open>RUNNING\<close> and the tasks are not saved.
\<close>

definition execute_task :: "nat \<Rightarrow> TaskScheduler \<Rightarrow> world
     \<Rightarrow> unit outcome \<times> TaskScheduler \<times> world" where
  "execute_task i s w0 =
     (let w = w0\<lparr>calls := calls w0 @ [i]\<rparr> in
      case task_executor s of
        None \<Rightarrow> (Returns (), s, logger ERROR No_task_executor_set w)
      | Some executor \<Rightarrow>
          (let (k, task) = tasks s ! i;
               task1 = task\<lparr>status := RUNNING\<rparr>;
               w1 = logger INFO (Executing_task (task_id task1)) w
           in case execute_try executor (length (calls w0)) task1 w1 of
                (Inr u, task', w') \<Rightarrow> then_save (s\<lparr>tasks := (tasks s)[i := (k, task')]\<rparr>) w'
              | (Inl (Exception msg), task', w') \<Rightarrow>
                  then_save
                    (s\<lparr>tasks := (tasks s)[i := (k, task'\<lparr>status := FAILED, error_message := msg\<rparr>)]\<rparr>)
                    (logger ERROR (Task_error (task_id task') msg) w')
              | (Inl (NonException msg), task', w') \<Rightarrow>
                  (Escapes msg, s\<lparr>tasks := (tasks s)[i := (k, task')]\<rparr>, w')))"

subsection \<open>The scan and the loop\<close>

text \<open>
  The \<^verbatim>\<open>for\<close> loop of \<^verbatim>\<open>_check_and_execute_tasks\<close> over the positions that
  \<^verbatim>\<open>list(self.tasks.values())\<close> captured. \<^verbatim>\<open>and\<close> evaluates its right operand only
  for a pending task; a raise, in the comparison or in \<^verbatim>\<open>_execute_task\<close>, leaves the
  loop with the store as it then is.
\<close>

fun scan :: "nat \<Rightarrow> nat list \<Rightarrow> TaskScheduler \<Rightarrow> world
     \<Rightarrow> unit outcome \<times> TaskScheduler \<times> world" where
  "scan now [] s w = (Returns (), s, w)"
| "scan now (i # rest) s w =
     (let task = snd (tasks s ! i) in
      if status task = PENDING then
        (case le_now (next_run task) now of
           Inl e \<Rightarrow> (Raises e, s, w)
         | Inr due \<Rightarrow>
             if due then
               (case execute_task i s w of
                  (Returns u, s', w') \<Rightarrow> scan now rest s' w'
                | (Raises e, s', w') \<Rightarrow> (Raises e, s', w')
                | (Escapes m, s', w') \<Rightarrow> (Escapes m, s', w'))
             else scan now rest s w)
      else scan now rest s w)"

definition check_and_execute_tasks :: "TaskScheduler \<Rightarrow> world
     \<Rightarrow> unit outcome \<times> TaskScheduler \<times> world" where
  "check_and_execute_tasks s w =
     (let (now, w1) = datetime_now w in scan now [0..<length (tasks s)] s w1)"

text \<open>
  One pass through the body of the \<^verbatim>\<open>while\<close> in \<^verbatim>\<open>_scheduler_loop\<close>. The handler is
  \<^verbatim>\<open>except Exception\<close>: it logs what it catches, and the pass then ends without sleeping.
\<close>

definition loop_body :: "TaskScheduler \<Rightarrow> world \<Rightarrow> unit outcome \<times> TaskScheduler \<times> world" where
  "loop_body s w =
     (case check_and_execute_tasks s w of
        (Returns u, s', w') \<Rightarrow> (Returns (), s', w'\<lparr>slept := slept w' + 10\<rparr>)
      | (Raises e, s', w') \<Rightarrow> (Returns (), s', logger ERROR (Scheduler_error e) w')
      | (Escapes m, s', w') \<Rightarrow> (Escapes m, s', w'))"

text \<open>
  \<^verbatim>\<open>_scheduler_loop\<close>. The loop runs for as long as \<^verbatim>\<open>self.running\<close> holds, a flag
  that only \<^verbatim>\<open>stop\<close>, on the caller's thread, clears; the first argument bounds the
  number of passes made before that happens. A raise that the handler does not catch ends
  the loop.
\<close>

fun scheduler_loop :: "nat \<Rightarrow> TaskScheduler \<Rightarrow> world
     \<Rightarrow> unit outcome \<times> TaskScheduler \<times> world" where
  "scheduler_loop 0 s w = (Returns (), s, w)"
| "scheduler_loop (Suc n) s w =
     (if running s then
        (case loop_body s w of
           (Returns u, s', w') \<Rightarrow> scheduler_loop n s' w'
         | (Raises e, s', w') \<Rightarrow> (Raises e, s', w')
         | (Escapes m, s', w') \<Rightarrow> (Escapes m, s', w'))
      else (Returns (), s, w))"

section \<open>Vocabulary for the properties\<close>

text \<open>
  The definitions of this section are not part of the program: they name what the
  properties below talk about.
\<close>

text \<open>The task object at position \<open>i\<close> of the store.\<close>

definition task_at :: "TaskScheduler \<Rightarrow> nat \<Rightarrow> ScheduledTask" where
  "task_at s i = snd (tasks s ! i)"

text \<open>
  The due check of the scan holds for a task; the due check raises on a task (pending,
  with a next run that is absent or aware); the due check can never hold for a task,
  whatever the time.
\<close>

definition is_due :: "nat \<Rightarrow> ScheduledTask \<Rightarrow> bool" where
  "is_due now t = (status t = PENDING \<and> le_now (next_run t) now = Inr True)"

definition stuck :: "ScheduledTask \<Rightarrow> bool" where
  "stuck t = (status t = PENDING \<and> (case next_run t of Some (Naive n) \<Rightarrow> False | _ \<Rightarrow> True))"

definition dormant :: "ScheduledTask \<Rightarrow> bool" where
  "dormant t = (status t \<noteq> PENDING \<or> (case next_run t of Some (Naive n) \<Rightarrow> False | _ \<Rightarrow> True))"

text \<open>
  The executor of the scheduler, if one is set, never raises outside the class
  \<^verbatim>\<open>Exception\<close>.
\<close>

definition never_escapes :: "TaskScheduler \<Rightarrow> bool" where
  "never_escapes s =
     (case task_executor s of
        None \<Rightarrow> True
      | Some executor \<Rightarrow> \<forall>n t m. executor n t \<noteq> Escaped m)"

text \<open>
  The positions handed to \<^verbatim>\<open>_execute_task\<close> during one call of
  \<^verbatim>\<open>_check_and_execute_tasks\<close>, and during a run of the loop: what the call history
  gained.
\<close>

definition selected_in_cycle :: "TaskScheduler \<Rightarrow> world \<Rightarrow> nat list" where
  "selected_in_cycle s w =
     drop (length (calls w)) (calls (snd (snd (check_and_execute_tasks s w))))"

definition selected_in_loop :: "nat \<Rightarrow> TaskScheduler \<Rightarrow> world \<Rightarrow> nat list" where
  "selected_in_loop n s w =
     drop (length (calls w)) (calls (snd (snd (scheduler_loop n s w))))"

text \<open>
  The scan of a cycle gets past position \<open>i\<close>: it deals with the positions up to and
  including \<open>i\<close> without being left by a raise.
\<close>

definition scan_gets_past :: "TaskScheduler \<Rightarrow> world \<Rightarrow> nat \<Rightarrow> bool" where
  "scan_gets_past s w i =
     (fst (scan (clock w (ticks w)) [0..<Suc i] s (snd (datetime_now w))) = Returns ())"

text \<open>The executor's answer to the call that \<^verbatim>\<open>_execute_task\<close> makes for position \<open>i\<close>.\<close>

definition executor_answer ::
  "(nat \<Rightarrow> ScheduledTask \<Rightarrow> exec_result) \<Rightarrow> TaskScheduler \<Rightarrow> world \<Rightarrow> nat \<Rightarrow> exec_result" where
  "executor_answer ex s w i = ex (length (calls w)) ((task_at s i)\<lparr>status := RUNNING\<rparr>)"

text \<open>
  For a failing write of the task file: the exception that \<^verbatim>\<open>save_tasks\<close> catches, and
  the file system it leaves behind (untouched when \<^verbatim>\<open>open\<close> failed; the file truncated
  and incomplete when \<^verbatim>\<open>json.dump\<close> failed).
\<close>

definition failure_exn :: "write_failure \<Rightarrow> exn" where
  "failure_exn f = (case f of Open_fails msg \<Rightarrow> OSError msg | Dump_fails e msg \<Rightarrow> e)"

definition file_after ::
  "write_failure \<Rightarrow> string \<Rightarrow> (string \<Rightarrow> file_state) \<Rightarrow> string \<Rightarrow> file_state" where
  "file_after f file fs =
     (case f of
        Open_fails msg \<Rightarrow> fs
      | Dump_fails e msg \<Rightarrow> fs(file := Unreadable (JSONDecodeError msg)))"

text \<open>
  Well-formed stores: timestamps are values that a \<^verbatim>\<open>datetime\<close> can hold, every task
  is stored under its own id, and no key occurs twice (a dictionary has no duplicate keys).
\<close>

definition valid_task :: "ScheduledTask \<Rightarrow> bool" where
  "valid_task t =
     (valid_datetime (scheduled_time t) \<and>
      (case last_run t of None \<Rightarrow> True | Some d \<Rightarrow> valid_datetime d) \<and>
      (case next_run t of None \<Rightarrow> True | Some d \<Rightarrow> valid_datetime d))"

definition wf_store :: "(string \<times> ScheduledTask) list \<Rightarrow> bool" where
  "wf_store kts =
     (distinct (map fst kts) \<and>
      list_all (\<lambda>kt. fst kt = task_id (snd kt) \<and> valid_task (snd kt)) kts)"

subsection \<open>Sample data\<close>

definition ex_clock :: "nat \<Rightarrow> nat" where
  "ex_clock n = 1000 + n"

definition ex_world :: world where
  "ex_world = \<lparr>clock = ex_clock, ticks = 0, files = (\<lambda>p. Missing), write_error = (\<lambda>p. None),
     logged = [], slept = 0, calls = []\<rparr>"

definition ex_task :: "string \<Rightarrow> TaskStatus \<Rightarrow> datetime option \<Rightarrow> ScheduledTask" where
  "ex_task tid st nr =
     \<lparr>task_id = tid, task_type = UPLOAD, source_path = ''/local/a.txt'',
      dest_path = ''/remote/a.txt'', scheduled_time = Naive 5, recurring = False,
      interval_minutes = 0, status = st, last_run = None, next_run = nr, error_message = ''''\<rparr>"

definition ex_scheduler :: "ScheduledTask list \<Rightarrow> exec_result \<Rightarrow> TaskScheduler" where
  "ex_scheduler ts answer =
     \<lparr>tasks_file = ''scheduled_tasks.json'', tasks = map (\<lambda>t. (task_id t, t)) ts,
      running = True, task_executor = Some (\<lambda>n t. answer)\<rparr>"

definition ex_tasks1 :: "ScheduledTask list" where
  "ex_tasks1 = [ex_task ''a'' PENDING (Some (Naive 1000)), ex_task ''b'' COMPLETED (Some (Naive 5)),
        ex_task ''c'' PENDING (Some (Naive 1001)), ex_task ''d'' PENDING (Some (Naive 7))]"

definition ex_tasks2 :: "ScheduledTask list" where
  "ex_tasks2 = [ex_task ''a'' PENDING None, ex_task ''b'' PENDING (Some (Naive 5))]"


definition ex_tasks4 :: "ScheduledTask list" where
  "ex_tasks4 = [(ex_task ''a'' COMPLETED None)\<lparr>last_run := Some (Naive 1000)\<rparr>,
      (ex_task ''b'' FAILED (Some (Aware 7 3600000000)))\<lparr>error_message := ''timeout''\<rparr>]"

definition ex_recurring :: "int \<Rightarrow> ScheduledTask" where
  "ex_recurring m =
     (ex_task ''r'' PENDING (Some (Naive 5)))\<lparr>recurring := True, interval_minutes := m\<rparr>"

text \<open>A scheduler object before \<^verbatim>\<open>load_tasks\<close> has run.\<close>

definition fresh_scheduler :: "string \<Rightarrow> TaskScheduler" where
  "fresh_scheduler file = \<lparr>tasks_file = file, tasks = [], running = False, task_executor = None\<rparr>"

text \<open>
  A world in which no file can be opened for writing, and one in which every write fails
  after the file was opened.
\<close>

definition ex_readonly_world :: world where
  "ex_readonly_world = ex_world\<lparr>write_error := (\<lambda>p. Some (Open_fails ''Permission denied''))\<rparr>"

definition ex_fulldisk_world :: world where
  "ex_fulldisk_world =
     ex_world\<lparr>write_error :=
       (\<lambda>p. Some (Dump_fails (OSError ''No space left on device'') ''Expecting value''))\<rparr>"

text \<open>A world whose task file holds one good record followed by an empty dictionary.\<close>

definition ex_partial_world :: world where
  "ex_partial_world =
     ex_world\<lparr>files :=
       (\<lambda>p. Content (JArr [to_dict (ex_task ''a'' PENDING (Some (Naive 5))), JObj []]))\<rparr>"

text \<open>
  Two schedulers over a store with one due task: the executor of the first is interrupted
  (it raises outside \<^verbatim>\<open>Exception\<close>), that of the second returns false.
\<close>

definition ex_interrupting :: TaskScheduler where
  "ex_interrupting = ex_scheduler [ex_task ''a'' PENDING (Some (Naive 5))] (Escaped ''interrupted'')"

definition ex_refusing :: TaskScheduler where
  "ex_refusing = ex_scheduler [ex_task ''a'' PENDING (Some (Naive 5))] (Returned False)"

section \<open>Auxiliary facts\<close>

lemma save_tasks_world:
  "save_tasks s w = (r, w') \<Longrightarrow>
     r = Returns () \<and> calls w' = calls w \<and> ticks w' = ticks w \<and> clock w' = clock w \<and>
     slept w' = slept w \<and> write_error w' = write_error w"
  by (auto simp: save_tasks_def save_tasks_try_def logger_def
      split: option.splits write_failure.splits)

lemma then_save_world:
  "then_save s w = (r, s', w') \<Longrightarrow>
     r = Returns () \<and> s' = s \<and> calls w' = calls w \<and> ticks w' = ticks w \<and> clock w' = clock w"
  using save_tasks_world [of s w] by (auto simp: then_save_def split: prod.splits)

lemma execute_try_world:
  "execute_try ex n t w = (q, t', w') \<Longrightarrow>
     calls w' = calls w \<and> ticks w \<le> ticks w' \<and> clock w' = clock w \<and>
     slept w' = slept w \<and> write_error w' = write_error w \<and> files w' = files w \<and>
     (\<forall>m. q = Inl (NonException m) \<longleftrightarrow> ex n t = Escaped m)"
  by (auto simp: execute_try_def logger_def datetime_now_def Let_def
      split: exec_result.splits if_splits sum.splits)

lemma execute_task_frame:
  assumes "execute_task i s w = (r, s', w')"
  shows "(r = Returns () \<or> (\<exists>m. r = Escapes m)) \<and> (never_escapes s \<longrightarrow> r = Returns ()) \<and>
    length (tasks s') = length (tasks s) \<and>
    (\<forall>j. j \<noteq> i \<longrightarrow> tasks s' ! j = tasks s ! j) \<and>
    tasks_file s' = tasks_file s \<and> running s' = running s \<and> task_executor s' = task_executor s \<and>
    calls w' = calls w @ [i] \<and> ticks w \<le> ticks w' \<and> clock w' = clock w"
proof (cases "task_executor s")
  case None
  with assms show ?thesis
    by (auto simp: execute_task_def logger_def)
next
  case (Some ex)
  obtain k task where kt: "tasks s ! i = (k, task)" by (cases "tasks s ! i")
  define wa where "wa = logger INFO (Executing_task (task_id task)) (w\<lparr>calls := calls w @ [i]\<rparr>)"
  obtain q t1 w1 where tr: "execute_try ex (length (calls w)) (task\<lparr>status := RUNNING\<rparr>) wa = (q, t1, w1)"
    by (cases "execute_try ex (length (calls w)) (task\<lparr>status := RUNNING\<rparr>) wa")
  note tw = execute_try_world [OF tr]
  have wa: "calls wa = calls w @ [i]" "ticks wa = ticks w" "clock wa = clock w"
    by (simp_all add: wa_def logger_def)
  show ?thesis
  proof (cases q)
    case (Inr u)
    define s2 where "s2 = s\<lparr>tasks := (tasks s)[i := (k, t1)]\<rparr>"
    have "execute_task i s w = then_save s2 w1"
      using Some kt tr Inr by (simp add: execute_task_def Let_def wa_def s2_def)
    with assms have "then_save s2 w1 = (r, s', w')" by simp
    from then_save_world [OF this] show ?thesis using tw wa
      by (simp add: s2_def)
  next
    case (Inl x)
    show ?thesis
    proof (cases x)
      case (Exception msg)
      define s2 where "s2 = s\<lparr>tasks := (tasks s)[i := (k, t1\<lparr>status := FAILED, error_message := msg\<rparr>)]\<rparr>"
      define w2 where "w2 = logger ERROR (Task_error (task_id t1) msg) w1"
      have "execute_task i s w = then_save s2 w2"
        using Some kt tr Inl Exception by (simp add: execute_task_def Let_def wa_def s2_def w2_def)
      with assms have "then_save s2 w2 = (r, s', w')" by simp
      from then_save_world [OF this] show ?thesis using tw wa
        by (simp add: s2_def w2_def logger_def)
    next
      case (NonException msg)
      have "execute_task i s w = (Escapes msg, s\<lparr>tasks := (tasks s)[i := (k, t1)]\<rparr>, w1)"
        using Some kt tr Inl NonException by (simp add: execute_task_def Let_def wa_def)
      with assms have eq: "r = Escapes msg" "s' = s\<lparr>tasks := (tasks s)[i := (k, t1)]\<rparr>" "w' = w1"
        by simp_all
      have "ex (length (calls w)) (task\<lparr>status := RUNNING\<rparr>) = Escaped msg"
        using tw Inl NonException by blast
      then have "\<not> never_escapes s" using Some by (auto simp: never_escapes_def)
      then show ?thesis using eq tw wa by simp
    qed
  qed
qed

lemma scan_step:
  assumes "a < n"
  shows "scan now [a..<n] s w =
     (if stuck (task_at s a) then (Raises TypeError, s, w)
      else if is_due now (task_at s a) then
        (case execute_task a s w of
           (Returns u, s', w') \<Rightarrow> scan now [Suc a..<n] s' w'
         | (Raises e, s', w') \<Rightarrow> (Raises e, s', w')
         | (Escapes m, s', w') \<Rightarrow> (Escapes m, s', w'))
      else scan now [Suc a..<n] s w)"
proof -
  have upt: "[a..<n] = a # [Suc a..<n]" using assms by (rule upt_conv_Cons)
  show ?thesis
  proof (cases "next_run (task_at s a)")
    case None
    then show ?thesis
      by (simp add: upt stuck_def is_due_def task_at_def Let_def del: upt.simps)
  next
    case (Some d)
    then show ?thesis
      by (cases d) (simp_all add: upt stuck_def is_due_def task_at_def Let_def del: upt.simps)
  qed
qed

lemma stuck_not_due: "stuck t \<Longrightarrow> \<not> is_due now t"
  by (auto simp: stuck_def is_due_def split: option.splits datetime.splits)

lemma task_at_frame:
  "\<forall>j. j \<noteq> a \<longrightarrow> tasks s1 ! j = tasks s ! j \<Longrightarrow> j \<noteq> a \<Longrightarrow> task_at s1 j = task_at s j"
  by (simp add: task_at_def)

lemma never_escapes_cong:
  "task_executor s1 = task_executor s \<Longrightarrow> never_escapes s1 = never_escapes s"
  by (simp add: never_escapes_def)

lemma scan_frame:
  assumes "n \<le> length (tasks s)" "scan now [a..<n] s w = (r, s', w')"
  shows "\<exists>sel. calls w' = calls w @ sel \<and>
         (\<forall>k \<in> set sel. a \<le> k \<and> k < n \<and> is_due now (task_at s k) \<and>
              (\<forall>j. a \<le> j \<and> j < k \<longrightarrow> \<not> stuck (task_at s j))) \<and>
         length (tasks s') = length (tasks s) \<and>
         (\<forall>j. j \<notin> set sel \<longrightarrow> tasks s' ! j = tasks s ! j) \<and>
         tasks_file s' = tasks_file s \<and> running s' = running s \<and>
         task_executor s' = task_executor s \<and> ticks w \<le> ticks w' \<and> clock w' = clock w \<and>
         (r = Returns () \<or> r = Raises TypeError \<or> (\<exists>m. r = Escapes m)) \<and>
         (never_escapes s \<longrightarrow> (\<forall>m. r \<noteq> Escapes m))"
  using assms
proof (induction "n - a" arbitrary: a s w)
  case 0
  then have "[a..<n] = []" by simp
  with "0.prems"(2) have "r = Returns ()" "s' = s" "w' = w" by simp_all
  then show ?case by simp
next
  case (Suc d)
  then have an: "a < n" and d: "d = n - Suc a" by linarith+
  note step = scan_step [OF an, of now s w]
  show ?case
  proof (cases "stuck (task_at s a)")
    case True
    with step Suc.prems(2) have "r = Raises TypeError" "s' = s" "w' = w" by simp_all
    then show ?thesis by simp
  next
    case ns: False
    show ?thesis
    proof (cases "is_due now (task_at s a)")
      case False
      with step ns Suc.prems(2) have "scan now [Suc a..<n] s w = (r, s', w')" by simp
      from Suc.hyps(1) [OF d Suc.prems(1) this]
      obtain sel where sel: "calls w' = calls w @ sel"
        "\<forall>k \<in> set sel. Suc a \<le> k \<and> k < n \<and> is_due now (task_at s k) \<and>
              (\<forall>j. Suc a \<le> j \<and> j < k \<longrightarrow> \<not> stuck (task_at s j))"
        and rest: "length (tasks s') = length (tasks s)"
         "\<forall>j. j \<notin> set sel \<longrightarrow> tasks s' ! j = tasks s ! j"
         "tasks_file s' = tasks_file s" "running s' = running s"
         "task_executor s' = task_executor s" "ticks w \<le> ticks w'" "clock w' = clock w"
         "r = Returns () \<or> r = Raises TypeError \<or> (\<exists>m. r = Escapes m)"
         "never_escapes s \<longrightarrow> (\<forall>m. r \<noteq> Escapes m)"
        by blast
      have "\<forall>k \<in> set sel. a \<le> k \<and> k < n \<and> is_due now (task_at s k) \<and>
              (\<forall>j. a \<le> j \<and> j < k \<longrightarrow> \<not> stuck (task_at s j))"
      proof
        fix k assume k: "k \<in> set sel"
        with sel(2) have 1: "Suc a \<le> k" "k < n" "is_due now (task_at s k)"
          and 2: "\<forall>j. Suc a \<le> j \<and> j < k \<longrightarrow> \<not> stuck (task_at s j)" by auto
        have "\<not> stuck (task_at s j)" if "a \<le> j" "j < k" for j
          using that 2 ns by (cases "j = a") auto
        with 1 show "a \<le> k \<and> k < n \<and> is_due now (task_at s k) \<and>
              (\<forall>j. a \<le> j \<and> j < k \<longrightarrow> \<not> stuck (task_at s j))" by auto
      qed
      with sel(1) rest show ?thesis by blast
    next
      case due: True
      obtain r1 s1 w1 where ex: "execute_task a s w = (r1, s1, w1)"
        by (cases "execute_task a s w")
      note fr = execute_task_frame [OF ex]
      from fr have r1: "r1 = Returns () \<or> (\<exists>m. r1 = Escapes m)" by simp
      have own: "\<forall>k \<in> set [a]. a \<le> k \<and> k < n \<and> is_due now (task_at s k) \<and>
              (\<forall>j. a \<le> j \<and> j < k \<longrightarrow> \<not> stuck (task_at s j))"
        using an due by auto
      from r1 show ?thesis
      proof
        assume esc: "\<exists>m. r1 = Escapes m"
        then obtain m where m: "r1 = Escapes m" ..
        with step ns due ex Suc.prems(2) have eq: "r = Escapes m" "s' = s1" "w' = w1" by simp_all
        have ne: "\<not> never_escapes s" using fr m by auto
        have "calls w' = calls w @ [a]" using fr eq by simp
        moreover have "\<forall>j. j \<notin> set [a] \<longrightarrow> tasks s' ! j = tasks s ! j" using fr eq by simp
        ultimately show ?thesis using own fr eq ne by blast
      next
        assume ret: "r1 = Returns ()"
        with step ns due ex Suc.prems(2) have sc: "scan now [Suc a..<n] s1 w1 = (r, s', w')" by simp
        have n1: "n \<le> length (tasks s1)" using fr Suc.prems(1) by simp
        have ta: "task_at s1 j = task_at s j" if "j \<noteq> a" for j
          using fr that by (simp add: task_at_def)
        have ne: "never_escapes s1 = never_escapes s" using fr by (simp add: never_escapes_def)
        from Suc.hyps(1) [OF d n1 sc]
        obtain sel where sel: "calls w' = calls w1 @ sel"
          "\<forall>k \<in> set sel. Suc a \<le> k \<and> k < n \<and> is_due now (task_at s1 k) \<and>
              (\<forall>j. Suc a \<le> j \<and> j < k \<longrightarrow> \<not> stuck (task_at s1 j))"
          and rest: "length (tasks s') = length (tasks s1)"
           "\<forall>j. j \<notin> set sel \<longrightarrow> tasks s' ! j = tasks s1 ! j"
           "tasks_file s' = tasks_file s1" "running s' = running s1"
           "task_executor s' = task_executor s1" "ticks w1 \<le> ticks w'" "clock w' = clock w1"
           "r = Returns () \<or> r = Raises TypeError \<or> (\<exists>m. r = Escapes m)"
           "never_escapes s1 \<longrightarrow> (\<forall>m. r \<noteq> Escapes m)"
          by blast
        have c: "calls w' = calls w @ (a # sel)" using sel(1) fr by simp
        have p: "\<forall>k \<in> set (a # sel). a \<le> k \<and> k < n \<and> is_due now (task_at s k) \<and>
              (\<forall>j. a \<le> j \<and> j < k \<longrightarrow> \<not> stuck (task_at s j))"
        proof
          fix k assume k: "k \<in> set (a # sel)"
          show "a \<le> k \<and> k < n \<and> is_due now (task_at s k) \<and>
              (\<forall>j. a \<le> j \<and> j < k \<longrightarrow> \<not> stuck (task_at s j))"
          proof (cases "k = a")
            case True
            then show ?thesis using own by simp
          next
            case False
            with k have ks: "k \<in> set sel" by simp
            with sel(2) have 1: "Suc a \<le> k" "k < n" "is_due now (task_at s1 k)"
              and 2: "\<forall>j. Suc a \<le> j \<and> j < k \<longrightarrow> \<not> stuck (task_at s1 j)" by auto
            have "\<not> stuck (task_at s j)" if "a \<le> j" "j < k" for j
            proof (cases "j = a")
              case True then show ?thesis using ns by simp
            next
              case False
              with that 2 have "\<not> stuck (task_at s1 j)" by auto
              then show ?thesis using ta [OF False] by simp
            qed
            moreover have "is_due now (task_at s k)" using 1 ta [of k] by auto
            ultimately show ?thesis using 1 by auto
          qed
        qed
        have f: "\<forall>j. j \<notin> set (a # sel) \<longrightarrow> tasks s' ! j = tasks s ! j"
          using rest(2) fr by auto
        have g: "length (tasks s') = length (tasks s)" "tasks_file s' = tasks_file s"
          "running s' = running s" "task_executor s' = task_executor s"
          "ticks w \<le> ticks w'" "clock w' = clock w"
          "never_escapes s \<longrightarrow> (\<forall>m. r \<noteq> Escapes m)"
          using rest fr ne by simp_all
        from c p f g rest(8) show ?thesis by blast
      qed
    qed
  qed
qed

lemma scan_complete:
  assumes "n \<le> length (tasks s)" "scan now [a..<n] s w = (Returns (), s', w')"
  shows "(\<forall>k. a \<le> k \<and> k < n \<and> is_due now (task_at s k) \<longrightarrow>
              k \<in> set (drop (length (calls w)) (calls w'))) \<and>
         (\<forall>j. a \<le> j \<and> j < n \<longrightarrow> \<not> stuck (task_at s j))"
  using assms
proof (induction "n - a" arbitrary: a s w)
  case 0
  then show ?case by auto
next
  case (Suc d)
  then have an: "a < n" and d: "d = n - Suc a" by linarith+
  note step = scan_step [OF an, of now s w]
  have ns: "\<not> stuck (task_at s a)" using step Suc.prems(2) by auto
  show ?case
  proof (cases "is_due now (task_at s a)")
    case False
    with step ns Suc.prems(2) have "scan now [Suc a..<n] s w = (Returns (), s', w')" by simp
    from Suc.hyps(1) [OF d Suc.prems(1) this]
    have 1: "\<forall>k. Suc a \<le> k \<and> k < n \<and> is_due now (task_at s k) \<longrightarrow>
              k \<in> set (drop (length (calls w)) (calls w'))"
      and 2: "\<forall>j. Suc a \<le> j \<and> j < n \<longrightarrow> \<not> stuck (task_at s j)" by blast+
    have "k \<in> set (drop (length (calls w)) (calls w'))"
      if "a \<le> k" "k < n" "is_due now (task_at s k)" for k
    proof -
      from that False have "k \<noteq> a" by auto
      with that have "Suc a \<le> k" by linarith
      with that 1 show ?thesis by blast
    qed
    moreover have "\<not> stuck (task_at s j)" if "a \<le> j" "j < n" for j
    proof (cases "j = a")
      case True then show ?thesis using ns by simp
    next
      case False
      with that have "Suc a \<le> j" by linarith
      with that 2 show ?thesis by blast
    qed
    ultimately show ?thesis by blast
  next
    case due: True
    obtain r1 s1 w1 where ex: "execute_task a s w = (r1, s1, w1)"
      by (cases "execute_task a s w")
    note fr = execute_task_frame [OF ex]
    have r1: "r1 = Returns ()"
      using step ns due ex Suc.prems(2) fr by (cases r1) auto
    with step ns due ex Suc.prems(2) have sc: "scan now [Suc a..<n] s1 w1 = (Returns (), s', w')"
      by simp
    have n1: "n \<le> length (tasks s1)" using fr Suc.prems(1) by simp
    have ta: "task_at s1 j = task_at s j" if "j \<noteq> a" for j
      using fr that by (simp add: task_at_def)
    from scan_frame [OF n1 sc] obtain sel where sel: "calls w' = calls w1 @ sel" by blast
    then have dr: "drop (length (calls w)) (calls w') = a # sel"
      "drop (length (calls w1)) (calls w') = sel" using fr by simp_all
    from Suc.hyps(1) [OF d n1 sc]
    have 1: "\<forall>k. Suc a \<le> k \<and> k < n \<and> is_due now (task_at s1 k) \<longrightarrow> k \<in> set sel"
      and 2: "\<forall>j. Suc a \<le> j \<and> j < n \<longrightarrow> \<not> stuck (task_at s1 j)"
      unfolding dr by blast+
    have "k \<in> set (a # sel)" if "a \<le> k" "k < n" "is_due now (task_at s k)" for k
    proof (cases "k = a")
      case True then show ?thesis by simp
    next
      case False
      with that have "Suc a \<le> k" by linarith
      with that ta [OF False] 1 show ?thesis by auto
    qed
    moreover have "\<not> stuck (task_at s j)" if "a \<le> j" "j < n" for j
    proof (cases "j = a")
      case True then show ?thesis using ns by simp
    next
      case False
      with that have "Suc a \<le> j" by linarith
      with that ta [OF False] 2 show ?thesis by auto
    qed
    ultimately show ?thesis unfolding dr by blast
  qed
qed

lemma scan_raises:
  assumes "n \<le> length (tasks s)" "scan now [a..<n] s w = (Raises e, s', w')"
  shows "e = TypeError \<and> (\<exists>j. a \<le> j \<and> j < n \<and> stuck (task_at s j))"
  using assms
proof (induction "n - a" arbitrary: a s w)
  case 0
  then show ?case by simp
next
  case (Suc d)
  then have an: "a < n" and d: "d = n - Suc a" by linarith+
  note step = scan_step [OF an, of now s w]
  show ?case
  proof (cases "stuck (task_at s a)")
    case True
    with step Suc.prems(2) an show ?thesis by auto
  next
    case ns: False
    show ?thesis
    proof (cases "is_due now (task_at s a)")
      case False
      with step ns Suc.prems(2) have "scan now [Suc a..<n] s w = (Raises e, s', w')" by simp
      from Suc.hyps(1) [OF d Suc.prems(1) this] show ?thesis
        by (meson Suc_leD)
    next
      case due: True
      obtain r1 s1 w1 where ex: "execute_task a s w = (r1, s1, w1)"
        by (cases "execute_task a s w")
      note fr = execute_task_frame [OF ex]
      have r1: "r1 = Returns ()"
        using step ns due ex Suc.prems(2) fr by (cases r1) auto
      with step ns due ex Suc.prems(2) have sc: "scan now [Suc a..<n] s1 w1 = (Raises e, s', w')"
        by simp
      have n1: "n \<le> length (tasks s1)" using fr Suc.prems(1) by simp
      from Suc.hyps(1) [OF d n1 sc] obtain j where j: "e = TypeError" "Suc a \<le> j" "j < n"
        "stuck (task_at s1 j)" by blast
      then have "task_at s1 j = task_at s j" using fr by (simp add: task_at_def)
      with j show ?thesis by (metis Suc_leD)
    qed
  qed
qed

lemma scan_returns:
  assumes "n \<le> length (tasks s)" "never_escapes s"
    and "\<forall>j. a \<le> j \<and> j < n \<longrightarrow> \<not> stuck (task_at s j)"
  shows "fst (scan now [a..<n] s w) = Returns ()"
proof -
  obtain r s' w' where sc: "scan now [a..<n] s w = (r, s', w')"
    by (cases "scan now [a..<n] s w")
  from scan_frame [OF assms(1) sc] assms(2)
  have "r = Returns () \<or> r = Raises TypeError" by blast
  moreover have "r \<noteq> Raises TypeError"
  proof
    assume "r = Raises TypeError"
    with sc have "scan now [a..<n] s w = (Raises TypeError, s', w')" by simp
    from scan_raises [OF assms(1) this] assms(3) show False by auto
  qed
  ultimately show ?thesis using sc by simp
qed

lemma scan_append:
  "scan now (xs @ ys) s w =
     (case scan now xs s w of
        (Returns u, s', w') \<Rightarrow> scan now ys s' w'
      | (Raises e, s', w') \<Rightarrow> (Raises e, s', w')
      | (Escapes m, s', w') \<Rightarrow> (Escapes m, s', w'))"
proof (induction xs arbitrary: s w)
  case Nil
  then show ?case by simp
next
  case (Cons i xs)
  show ?case
    by (simp add: Cons.IH Let_def split: sum.splits prod.splits outcome.splits)
qed

lemma upt_split: "i < n \<Longrightarrow> [0..<n] = [0..<Suc i] @ [Suc i..<n]"
  using upt_add_eq_append [of 0 "Suc i" "n - Suc i"] by simp

lemma check_and_execute_tasks_scan:
  "check_and_execute_tasks s w =
     scan (clock w (ticks w)) [0..<length (tasks s)] s (snd (datetime_now w))"
  by (simp add: check_and_execute_tasks_def datetime_now_def)

lemma datetime_now_world:
  "calls (snd (datetime_now w)) = calls w" "ticks (snd (datetime_now w)) = Suc (ticks w)"
  "clock (snd (datetime_now w)) = clock w"
  by (simp_all add: datetime_now_def)

lemma check_and_execute_tasks_frame:
  assumes "check_and_execute_tasks s w = (r, s', w')"
  shows "calls w' = calls w @ selected_in_cycle s w \<and>
         length (tasks s') = length (tasks s) \<and>
         (\<forall>j. j \<notin> set (selected_in_cycle s w) \<longrightarrow> tasks s' ! j = tasks s ! j) \<and>
         tasks_file s' = tasks_file s \<and> running s' = running s \<and>
         task_executor s' = task_executor s \<and> ticks w < ticks w' \<and> clock w' = clock w \<and>
         (r = Returns () \<or> r = Raises TypeError \<or> (\<exists>m. r = Escapes m)) \<and>
         (never_escapes s \<longrightarrow> (\<forall>m. r \<noteq> Escapes m))"
proof -
  from assms have sc: "scan (clock w (ticks w)) [0..<length (tasks s)] s (snd (datetime_now w)) = (r, s', w')"
    by (simp add: check_and_execute_tasks_scan)
  from scan_frame [OF order_refl sc] obtain sel where
    sel: "calls w' = calls (snd (datetime_now w)) @ sel"
    and rest: "length (tasks s') = length (tasks s)"
         "\<forall>j. j \<notin> set sel \<longrightarrow> tasks s' ! j = tasks s ! j"
         "tasks_file s' = tasks_file s" "running s' = running s"
         "task_executor s' = task_executor s" "ticks (snd (datetime_now w)) \<le> ticks w'"
         "clock w' = clock (snd (datetime_now w))"
         "r = Returns () \<or> r = Raises TypeError \<or> (\<exists>m. r = Escapes m)"
         "never_escapes s \<longrightarrow> (\<forall>m. r \<noteq> Escapes m)"
    by blast
  have "selected_in_cycle s w = sel"
    using sel assms by (simp add: selected_in_cycle_def datetime_now_world)
  with sel rest show ?thesis by (simp add: datetime_now_world)
qed

lemma selected_in_cycle_sound:
  assumes "i \<in> set (selected_in_cycle s w)"
  shows "i < length (tasks s) \<and> is_due (clock w (ticks w)) (task_at s i) \<and>
         (\<forall>j < i. \<not> stuck (task_at s j))"
proof -
  obtain r s' w' where c: "check_and_execute_tasks s w = (r, s', w')"
    by (cases "check_and_execute_tasks s w")
  then have sc: "scan (clock w (ticks w)) [0..<length (tasks s)] s (snd (datetime_now w)) = (r, s', w')"
    by (simp add: check_and_execute_tasks_scan)
  from scan_frame [OF order_refl sc] obtain sel where
    sel: "calls w' = calls (snd (datetime_now w)) @ sel"
    and p: "\<forall>k \<in> set sel. 0 \<le> k \<and> k < length (tasks s) \<and> is_due (clock w (ticks w)) (task_at s k) \<and>
              (\<forall>j. 0 \<le> j \<and> j < k \<longrightarrow> \<not> stuck (task_at s j))"
    by blast
  have "selected_in_cycle s w = sel"
    using sel c by (simp add: selected_in_cycle_def datetime_now_world)
  with assms p show ?thesis by auto
qed

lemma selected_in_cycle_complete:
  assumes "i < length (tasks s)" "scan_gets_past s w i" "is_due (clock w (ticks w)) (task_at s i)"
  shows "i \<in> set (selected_in_cycle s w)"
proof -
  let ?now = "clock w (ticks w)" and ?w1 = "snd (datetime_now w)"
  obtain sp wp where pre: "scan ?now [0..<Suc i] s ?w1 = (Returns (), sp, wp)"
    using assms(2) by (cases "scan ?now [0..<Suc i] s ?w1") (auto simp: scan_gets_past_def)
  have le: "Suc i \<le> length (tasks s)" using assms(1) by simp
  from scan_complete [OF le pre] assms(3)
  have mem: "i \<in> set (drop (length (calls ?w1)) (calls wp))" by simp
  from scan_frame [OF le pre] obtain selp where selp: "calls wp = calls ?w1 @ selp"
    and lp: "length (tasks sp) = length (tasks s)" by blast
  obtain r s' w' where rest: "scan ?now [Suc i..<length (tasks s)] sp wp = (r, s', w')"
    by (cases "scan ?now [Suc i..<length (tasks s)] sp wp")
  have "length (tasks s) \<le> length (tasks sp)" using lp by simp
  from scan_frame [OF this rest] obtain sel2 where sel2: "calls w' = calls wp @ sel2" by blast
  have "check_and_execute_tasks s w = (r, s', w')"
    using pre rest by (simp add: check_and_execute_tasks_scan upt_split [OF assms(1)] scan_append
        del: upt.simps)
  then have "selected_in_cycle s w = selp @ sel2"
    using selp sel2 by (simp add: selected_in_cycle_def datetime_now_world)
  moreover have "i \<in> set selp" using mem selp by simp
  ultimately show ?thesis by simp
qed

lemma scan_gets_past_all:
  assumes "fst (check_and_execute_tasks s w) = Returns ()" "i < length (tasks s)"
  shows "scan_gets_past s w i"
proof -
  let ?now = "clock w (ticks w)" and ?w1 = "snd (datetime_now w)"
  obtain rp sp wp where pre: "scan ?now [0..<Suc i] s ?w1 = (rp, sp, wp)"
    by (cases "scan ?now [0..<Suc i] s ?w1")
  have "rp = Returns ()"
    using assms(1) pre
    by (cases rp) (simp_all add: check_and_execute_tasks_scan upt_split [OF assms(2)] scan_append
        del: upt.simps)
  with pre show ?thesis by (simp add: scan_gets_past_def)
qed

lemma scan_gets_past_if:
  assumes "i < length (tasks s)" "never_escapes s" "\<forall>j \<le> i. \<not> stuck (task_at s j)"
  shows "scan_gets_past s w i"
  unfolding scan_gets_past_def
  by (rule scan_returns) (use assms in auto)

lemma check_and_execute_tasks_outcome:
  assumes "never_escapes s"
  shows "fst (check_and_execute_tasks s w) =
     (if \<exists>j < length (tasks s). stuck (task_at s j) then Raises TypeError else Returns ())"
proof -
  let ?now = "clock w (ticks w)" and ?w1 = "snd (datetime_now w)"
  obtain r s' w' where sc: "scan ?now [0..<length (tasks s)] s ?w1 = (r, s', w')"
    by (cases "scan ?now [0..<length (tasks s)] s ?w1")
  from scan_frame [OF order_refl sc] assms
  have tri: "r = Returns () \<or> r = Raises TypeError" by blast
  show ?thesis
  proof (cases "\<exists>j < length (tasks s). stuck (task_at s j)")
    case True
    have "r \<noteq> Returns ()"
    proof
      assume "r = Returns ()"
      with sc have "scan ?now [0..<length (tasks s)] s ?w1 = (Returns (), s', w')" by simp
      from scan_complete [OF order_refl this] True show False by auto
    qed
    with tri True sc show ?thesis by (simp add: check_and_execute_tasks_scan)
  next
    case False
    have "r \<noteq> Raises TypeError"
    proof
      assume "r = Raises TypeError"
      with sc have "scan ?now [0..<length (tasks s)] s ?w1 = (Raises TypeError, s', w')" by simp
      from scan_raises [OF order_refl this] False show False by auto
    qed
    with tri False sc show ?thesis by (simp add: check_and_execute_tasks_scan)
  qed
qed


lemma stuck_blocks:
  assumes "i < length (tasks s)" "stuck (task_at s i)" "j \<in> set (selected_in_cycle s w)"
  shows "j < i"
proof (rule ccontr)
  assume "\<not> j < i"
  then consider "j = i" | "i < j" by linarith
  then show False
    using selected_in_cycle_sound [OF assms(3)] assms(2) stuck_not_due by cases auto
qed

lemma loop_body_frame:
  assumes "loop_body s w = (r, s', w')"
  shows "calls w' = calls w @ selected_in_cycle s w \<and>
         length (tasks s') = length (tasks s) \<and>
         (\<forall>j. j \<notin> set (selected_in_cycle s w) \<longrightarrow> tasks s' ! j = tasks s ! j) \<and>
         tasks_file s' = tasks_file s \<and> running s' = running s \<and>
         task_executor s' = task_executor s \<and> ticks w < ticks w' \<and> clock w' = clock w \<and>
         (r = Returns () \<or> (\<exists>m. r = Escapes m)) \<and> (never_escapes s \<longrightarrow> r = Returns ())"
proof -
  obtain r1 s1 w1 where c: "check_and_execute_tasks s w = (r1, s1, w1)"
    by (cases "check_and_execute_tasks s w")
  note fr = check_and_execute_tasks_frame [OF c]
  from assms c have eq: "s' = s1" "calls w' = calls w1" "ticks w' = ticks w1" "clock w' = clock w1"
    and r: "r = (case r1 of Escapes m \<Rightarrow> Escapes m | _ \<Rightarrow> Returns ())"
    by (auto simp: loop_body_def logger_def split: outcome.splits)
  have "r = Returns () \<or> (\<exists>m. r = Escapes m)" using r by (cases r1) auto
  moreover have "never_escapes s \<longrightarrow> r = Returns ()" using r fr by (cases r1) auto
  ultimately show ?thesis using fr eq by simp
qed

lemma scheduler_loop_passes:
  "scheduler_loop n s w = (r, s', w') \<Longrightarrow>
     running s' = running s \<and> length (tasks s') = length (tasks s) \<and>
     task_executor s' = task_executor s \<and> clock w' = clock w \<and>
     (r = Returns () \<or> (\<exists>m. r = Escapes m)) \<and>
     (never_escapes s \<longrightarrow> r = Returns () \<and> (running s \<longrightarrow> ticks w + n \<le> ticks w'))"
proof (induction n arbitrary: s w)
  case 0
  then show ?case by simp
next
  case (Suc n)
  show ?case
  proof (cases "running s")
    case False
    with Suc.prems show ?thesis by simp
  next
    case True
    obtain r1 s1 w1 where b: "loop_body s w = (r1, s1, w1)" by (cases "loop_body s w")
    note fr = loop_body_frame [OF b]
    from fr have "r1 = Returns () \<or> (\<exists>m. r1 = Escapes m)" by simp
    then show ?thesis
    proof
      assume r1: "r1 = Returns ()"
      with Suc.prems True b have "scheduler_loop n s1 w1 = (r, s', w')" by simp
      from Suc.IH [OF this] fr True show ?thesis
        by (auto simp: never_escapes_def)
    next
      assume "\<exists>m. r1 = Escapes m"
      then obtain m where m: "r1 = Escapes m" ..
      with Suc.prems True b have "r = Escapes m" "s' = s1" "w' = w1" by simp_all
      with fr m show ?thesis by auto
    qed
  qed
qed

lemma scheduler_loop_frame:
  assumes "i < length (tasks s)" "dormant (task_at s i)" "scheduler_loop n s w = (r, s', w')"
  shows "tasks s' ! i = tasks s ! i \<and>
         (\<exists>new. calls w' = calls w @ new \<and> i \<notin> set new \<and>
                 (stuck (task_at s i) \<longrightarrow> (\<forall>j \<in> set new. j < i)))"
  using assms
proof (induction n arbitrary: s w)
  case 0
  then show ?case by simp
next
  case (Suc n)
  show ?case
  proof (cases "running s")
    case False
    with Suc.prems show ?thesis by simp
  next
    case True
    obtain r1 s1 w1 where b: "loop_body s w = (r1, s1, w1)" by (cases "loop_body s w")
    note fr = loop_body_frame [OF b]
    have nd: "\<not> is_due (clock w (ticks w)) (task_at s i)"
      using Suc.prems(2) by (auto simp: dormant_def is_due_def split: option.splits datetime.splits)
    have nsel: "i \<notin> set (selected_in_cycle s w)"
      using selected_in_cycle_sound [of i s w] nd by blast
    have before: "stuck (task_at s i) \<longrightarrow> (\<forall>j \<in> set (selected_in_cycle s w). j < i)"
      using stuck_blocks [OF Suc.prems(1)] by blast
    from fr nsel have same: "tasks s1 ! i = tasks s ! i" by simp
    then have ta: "task_at s1 i = task_at s i" by (simp add: task_at_def)
    from fr have "r1 = Returns () \<or> (\<exists>m. r1 = Escapes m)" by simp
    then show ?thesis
    proof
      assume "\<exists>m. r1 = Escapes m"
      then obtain m where m: "r1 = Escapes m" ..
      with Suc.prems(3) True b have "s' = s1" "w' = w1" by simp_all
      with fr same nsel before show ?thesis by auto
    next
      assume r1: "r1 = Returns ()"
      with Suc.prems True b have l: "scheduler_loop n s1 w1 = (r, s', w')" by simp
      have "i < length (tasks s1)" using fr Suc.prems(1) by simp
      from Suc.IH [OF this _ l] Suc.prems(2) ta
      obtain new where new: "tasks s' ! i = tasks s1 ! i" "calls w' = calls w1 @ new"
        "i \<notin> set new" "stuck (task_at s i) \<longrightarrow> (\<forall>j \<in> set new. j < i)" by auto
      have "calls w' = calls w @ (selected_in_cycle s w @ new)" using new fr by simp
      moreover have "i \<notin> set (selected_in_cycle s w @ new)" using nsel new by simp
      moreover have "stuck (task_at s i) \<longrightarrow> (\<forall>j \<in> set (selected_in_cycle s w @ new). j < i)"
        using before new by auto
      ultimately show ?thesis using new same by metis
    qed
  qed
qed

lemma selected_in_loop_dormant:
  assumes "i < length (tasks s)" "dormant (task_at s i)"
  shows "i \<notin> set (selected_in_loop n s w)"
    and "task_at (fst (snd (scheduler_loop n s w))) i = task_at s i"
    and "stuck (task_at s i) \<Longrightarrow> \<forall>j \<in> set (selected_in_loop n s w). j < i"
proof -
  obtain r s' w' where l: "scheduler_loop n s w = (r, s', w')" by (cases "scheduler_loop n s w")
  from scheduler_loop_frame [OF assms l]
  obtain new where new: "tasks s' ! i = tasks s ! i" "calls w' = calls w @ new" "i \<notin> set new"
      "stuck (task_at s i) \<longrightarrow> (\<forall>j \<in> set new. j < i)" by auto
  then have sel: "selected_in_loop n s w = new" by (simp add: selected_in_loop_def l)
  show "i \<notin> set (selected_in_loop n s w)" using sel new by simp
  show "task_at (fst (snd (scheduler_loop n s w))) i = task_at s i"
    using new l by (simp add: task_at_def)
  show "stuck (task_at s i) \<Longrightarrow> \<forall>j \<in> set (selected_in_loop n s w). j < i" using sel new by simp
qed

lemma not_pending_never_selected:
  assumes "i < length (tasks s)" "status (task_at s i) \<noteq> PENDING"
  shows "i \<notin> set (selected_in_loop n s w) \<and>
         task_at (fst (snd (scheduler_loop n s w))) i = task_at s i"
  using selected_in_loop_dormant [OF assms(1), of n w] assms(2) by (simp add: dormant_def)

lemma execute_try_cases:
  assumes "execute_try ex n t w = (q, t', w')"
  shows "(\<forall>msg. ex n t = Raised msg \<longrightarrow> q = Inl (Exception msg) \<and> t' = t) \<and>
   (\<forall>msg. ex n t = Escaped msg \<longrightarrow> q = Inl (NonException msg) \<and> t' = t) \<and>
   (ex n t = Returned False \<longrightarrow>
      q = Inr () \<and> t' = t\<lparr>status := FAILED, error_message := ''Task execution failed''\<rparr>) \<and>
   (ex n t = Returned True \<and> \<not> (recurring t \<and> 0 < interval_minutes t) \<longrightarrow>
      q = Inr () \<and> t' = t\<lparr>status := COMPLETED, last_run := Some (Naive (clock w (ticks w)))\<rparr>) \<and>
   (ex n t = Returned True \<and> recurring t \<and> 0 < interval_minutes t \<longrightarrow>
      (case add_minutes (clock w (Suc (ticks w))) (interval_minutes t) of
         Inl msg \<Rightarrow> q = Inl (Exception msg) \<and>
           t' = t\<lparr>status := COMPLETED, last_run := Some (Naive (clock w (ticks w)))\<rparr>
       | Inr nr \<Rightarrow> q = Inr () \<and>
           t' = t\<lparr>status := PENDING, last_run := Some (Naive (clock w (ticks w))),
                  next_run := Some (Naive nr)\<rparr>))"
  using assms
  by (auto simp: execute_try_def datetime_now_def Let_def logger_def
      split: exec_result.splits if_splits sum.splits)

lemma execute_task_task:
  assumes "i < length (tasks s)" "task_executor s = Some ex" "execute_task i s w = (r, s', w')"
  shows "\<exists>q t' w1 wa. clock wa = clock w \<and> ticks wa = ticks w \<and>
           execute_try ex (length (calls w)) ((task_at s i)\<lparr>status := RUNNING\<rparr>) wa = (q, t', w1) \<and>
           task_at s' i =
             (case q of
                Inr u \<Rightarrow> t'
              | Inl (Exception msg) \<Rightarrow> t'\<lparr>status := FAILED, error_message := msg\<rparr>
              | Inl (NonException msg) \<Rightarrow> t') \<and>
           r = (case q of Inl (NonException msg) \<Rightarrow> Escapes msg | _ \<Rightarrow> Returns ())"
proof -
  obtain k task where kt: "tasks s ! i = (k, task)" by (cases "tasks s ! i")
  define wa where "wa = logger INFO (Executing_task (task_id task)) (w\<lparr>calls := calls w @ [i]\<rparr>)"
  obtain q t1 w1 where tr: "execute_try ex (length (calls w)) (task\<lparr>status := RUNNING\<rparr>) wa = (q, t1, w1)"
    by (cases "execute_try ex (length (calls w)) (task\<lparr>status := RUNNING\<rparr>) wa")
  have wa: "clock wa = clock w" "ticks wa = ticks w" by (simp_all add: wa_def logger_def)
  have ts: "\<And>s2 w2. fst (then_save s2 w2) = Returns () \<and> fst (snd (then_save s2 w2)) = s2"
    using then_save_world by (metis prod.collapse)
  have "task_at s' i =
             (case q of
                Inr u \<Rightarrow> t1
              | Inl (Exception msg) \<Rightarrow> t1\<lparr>status := FAILED, error_message := msg\<rparr>
              | Inl (NonException msg) \<Rightarrow> t1) \<and>
           r = (case q of Inl (NonException msg) \<Rightarrow> Escapes msg | _ \<Rightarrow> Returns ())"
  proof (cases q)
    case (Inr u)
    then have "execute_task i s w = then_save (s\<lparr>tasks := (tasks s)[i := (k, t1)]\<rparr>) w1"
      using assms(2) kt tr by (simp add: execute_task_def Let_def wa_def)
    with assms(3) ts [of "s\<lparr>tasks := (tasks s)[i := (k, t1)]\<rparr>" w1] Inr assms(1)
    show ?thesis by (auto simp: task_at_def)
  next
    case (Inl x)
    show ?thesis
    proof (cases x)
      case (Exception msg)
      then have "execute_task i s w =
          then_save (s\<lparr>tasks := (tasks s)[i := (k, t1\<lparr>status := FAILED, error_message := msg\<rparr>)]\<rparr>)
            (logger ERROR (Task_error (task_id t1) msg) w1)"
        using assms(2) kt tr Inl by (simp add: execute_task_def Let_def wa_def)
      with assms(3) ts [of "s\<lparr>tasks := (tasks s)[i := (k, t1\<lparr>status := FAILED, error_message := msg\<rparr>)]\<rparr>"
          "logger ERROR (Task_error (task_id t1) msg) w1"] Inl Exception assms(1)
      show ?thesis by (auto simp: task_at_def)
    next
      case (NonException msg)
      then have "execute_task i s w = (Escapes msg, s\<lparr>tasks := (tasks s)[i := (k, t1)]\<rparr>, w1)"
        using assms(2) kt tr Inl by (simp add: execute_task_def Let_def wa_def)
      with assms(3) Inl NonException assms(1) show ?thesis by (auto simp: task_at_def)
    qed
  qed
  with tr wa kt show ?thesis by (auto simp: task_at_def)
qed

lemma execute_task_cases:
  assumes "i < length (tasks s)" "task_executor s = Some ex" "execute_task i s w = (r, s', w')"
  defines "t \<equiv> task_at s i" and "a \<equiv> executor_answer ex s w i"
  shows "(\<forall>msg. a = Raised msg \<longrightarrow>
      r = Returns () \<and> task_at s' i = t\<lparr>status := FAILED, error_message := msg\<rparr>) \<and>
   (\<forall>msg. a = Escaped msg \<longrightarrow> r = Escapes msg \<and> task_at s' i = t\<lparr>status := RUNNING\<rparr>) \<and>
   (a = Returned False \<longrightarrow>
      r = Returns () \<and>
      task_at s' i = t\<lparr>status := FAILED, error_message := ''Task execution failed''\<rparr>) \<and>
   (a = Returned True \<and> \<not> (recurring t \<and> 0 < interval_minutes t) \<longrightarrow>
      r = Returns () \<and>
      task_at s' i = t\<lparr>status := COMPLETED, last_run := Some (Naive (clock w (ticks w)))\<rparr>) \<and>
   (a = Returned True \<and> recurring t \<and> 0 < interval_minutes t \<longrightarrow>
      r = Returns () \<and>
      (case add_minutes (clock w (Suc (ticks w))) (interval_minutes t) of
         Inl msg \<Rightarrow> task_at s' i =
           t\<lparr>status := FAILED, last_run := Some (Naive (clock w (ticks w))), error_message := msg\<rparr>
       | Inr nr \<Rightarrow> task_at s' i =
           t\<lparr>status := PENDING, last_run := Some (Naive (clock w (ticks w))),
             next_run := Some (Naive nr)\<rparr>))"
proof -
  from execute_task_task [OF assms(1-3)]
  obtain q t' w1 wa where wa: "clock wa = clock w" "ticks wa = ticks w"
    and tr: "execute_try ex (length (calls w)) (t\<lparr>status := RUNNING\<rparr>) wa = (q, t', w1)"
    and res: "task_at s' i =
             (case q of
                Inr u \<Rightarrow> t'
              | Inl (Exception msg) \<Rightarrow> t'\<lparr>status := FAILED, error_message := msg\<rparr>
              | Inl (NonException msg) \<Rightarrow> t')"
      "r = (case q of Inl (NonException msg) \<Rightarrow> Escapes msg | _ \<Rightarrow> Returns ())"
    unfolding t_def by blast
  from execute_try_cases [OF tr] res wa show ?thesis
    by (auto simp: a_def executor_answer_def t_def [symmetric] split: sum.splits)
qed

lemma execute_task_collapse:
  "execute_task i s w =
     (fst (execute_task i s w), fst (snd (execute_task i s w)), snd (snd (execute_task i s w)))"
  by simp

lemma add_minutes_in_range:
  assumes "0 < m" "dt + nat m * 60000000 \<le> MAXDT"
  shows "add_minutes dt m = Inr (dt + nat m * 60000000)"
proof -
  have m: "m * 60000000 \<le> 315537897599999999" using assms by (simp add: MAXDT_def)
  then have "m \<le> 5258964959" by linarith
  then have d: "m div 1440 \<le> 3652059" by linarith
  have d0: "0 \<le> m div 1440" using assms(1) by simp
  have r: "int dt + m * 60000000 \<le> int MAXDT" using assms by linarith
  have n: "nat (int dt + m * 60000000) = dt + nat m * 60000000" using assms(1) by linarith
  show ?thesis using d d0 r n assms(1)
    by (simp add: add_minutes_def Let_def)
qed

lemma execute_task_raised:
  assumes "i < length (tasks s)" "task_executor s = Some ex" "execute_task i s w = (r, s', w')"
    and "executor_answer ex s w i = Raised msg"
  shows "r = Returns ()" "task_at s' i = (task_at s i)\<lparr>status := FAILED, error_message := msg\<rparr>"
  using execute_task_cases [OF assms(1-3)] assms(4) by simp_all

lemma execute_task_escaped:
  assumes "i < length (tasks s)" "task_executor s = Some ex" "execute_task i s w = (r, s', w')"
    and "executor_answer ex s w i = Escaped msg"
  shows "r = Escapes msg" "task_at s' i = (task_at s i)\<lparr>status := RUNNING\<rparr>"
  using execute_task_cases [OF assms(1-3)] assms(4) by simp_all

lemma execute_task_false:
  assumes "i < length (tasks s)" "task_executor s = Some ex" "execute_task i s w = (r, s', w')"
    and "executor_answer ex s w i = Returned False"
  shows "r = Returns ()"
    "task_at s' i = (task_at s i)\<lparr>status := FAILED, error_message := ''Task execution failed''\<rparr>"
  using execute_task_cases [OF assms(1-3)] assms(4) by simp_all

lemma execute_task_once:
  assumes "i < length (tasks s)" "task_executor s = Some ex" "execute_task i s w = (r, s', w')"
    and "executor_answer ex s w i = Returned True"
    and "\<not> (recurring (task_at s i) \<and> 0 < interval_minutes (task_at s i))"
  shows "r = Returns ()"
    "task_at s' i = (task_at s i)\<lparr>status := COMPLETED, last_run := Some (Naive (clock w (ticks w)))\<rparr>"
  using execute_task_cases [OF assms(1-3)] assms(4,5) by simp_all

lemma execute_task_again:
  assumes "i < length (tasks s)" "task_executor s = Some ex" "execute_task i s w = (r, s', w')"
    and "executor_answer ex s w i = Returned True"
    and "recurring (task_at s i)" "0 < interval_minutes (task_at s i)"
  shows "r = Returns ()"
    "\<And>nr. add_minutes (clock w (Suc (ticks w))) (interval_minutes (task_at s i)) = Inr nr \<Longrightarrow>
       task_at s' i = (task_at s i)\<lparr>status := PENDING,
         last_run := Some (Naive (clock w (ticks w))), next_run := Some (Naive nr)\<rparr>"
    "\<And>msg. add_minutes (clock w (Suc (ticks w))) (interval_minutes (task_at s i)) = Inl msg \<Longrightarrow>
       task_at s' i = (task_at s i)\<lparr>status := FAILED,
         last_run := Some (Naive (clock w (ticks w))), error_message := msg\<rparr>"
  using execute_task_cases [OF assms(1-3)] assms(4-6) by simp_all

lemma digit_val_char_of: "d < 10 \<Longrightarrow> digit_val (char_of (48 + d)) = Some d"
  by (simp add: digit_val_def Let_def)

lemma parse_digits_append:
  "parse_digits acc (xs @ [c]) =
     (case parse_digits acc xs of None \<Rightarrow> None
      | Some a \<Rightarrow> (case digit_val c of None \<Rightarrow> None | Some d \<Rightarrow> Some (10 * a + d)))"
  by (induction xs arbitrary: acc) (auto split: option.splits)

lemma parse_digits_digits: "parse_digits 0 (digits n) = Some n"
proof (induction n rule: digits.induct)
  case (1 n)
  show ?case
  proof (cases "n < 10")
    case True
    then show ?thesis by (subst digits.simps) (simp add: digit_val_char_of)
  next
    case False
    then have "parse_digits 0 (digits (n div 10)) = Some (n div 10)" by (rule "1.IH")
    with False show ?thesis
      by (subst digits.simps) (simp add: parse_digits_append digit_val_char_of)
  qed
qed

lemma digits_nonempty: "digits n \<noteq> []"
  by (subst digits.simps) simp

lemma parse_nat_digits: "parse_nat (digits n) = Some n"
  by (simp add: parse_nat_def digits_nonempty parse_digits_digits)

lemma digits_are_digits: "c \<in> set (digits n) \<Longrightarrow> is_digit c"
proof (induction n rule: digits.induct)
  case (1 n)
  show ?case
  proof (cases "n < 10")
    case True
    with "1.prems" show ?thesis
      by (subst (asm) digits.simps) (simp add: is_digit_def digit_val_char_of)
  next
    case False
    with "1.prems" have "c \<in> set (digits (n div 10)) \<or> c = char_of (48 + n mod 10)"
      by (subst (asm) digits.simps) auto
    then show ?thesis
      using "1.IH" [OF False] by (auto simp: is_digit_def digit_val_char_of)
  qed
qed

lemma sign_not_digit: "\<not> is_digit CHR ''+''" "\<not> is_digit CHR ''-''"
  by (simp_all add: is_digit_def digit_val_def)

lemma takeWhile_digits: "takeWhile is_digit (digits n) = digits n"
  by (simp add: digits_are_digits)

lemma dropWhile_digits: "dropWhile is_digit (digits n) = []"
  by (simp add: digits_are_digits)

lemma takeWhile_digits_sign:
  "\<not> is_digit c \<Longrightarrow> takeWhile is_digit (digits n @ c # rest) = digits n"
  by (simp add: takeWhile_append2 digits_are_digits)

lemma dropWhile_digits_sign:
  "\<not> is_digit c \<Longrightarrow> dropWhile is_digit (digits n @ c # rest) = c # rest"
  by (simp add: dropWhile_append2 digits_are_digits)

lemma isoformat_nonempty: "isoformat d \<noteq> []"
  by (cases d) (simp_all add: isoformat_def digits_nonempty)

lemma fromisoformat_isoformat:
  assumes "valid_datetime d"
  shows "fromisoformat (isoformat d) = Inr d"
proof (cases d)
  case (Naive n)
  with assms show ?thesis
    by (simp add: fromisoformat_def isoformat_def takeWhile_digits dropWhile_digits parse_nat_digits)
next
  case (Aware n off)
  show ?thesis
  proof (cases "off < 0")
    case True
    then have "- int (nat \<bar>off\<bar>) = off" by simp
    with assms Aware True show ?thesis
      by (simp add: fromisoformat_def isoformat_def takeWhile_digits_sign dropWhile_digits_sign
          sign_not_digit parse_nat_digits Let_def)
  next
    case False
    then have "int (nat \<bar>off\<bar>) = off" by simp
    with assms Aware False show ?thesis
      by (simp add: fromisoformat_def isoformat_def takeWhile_digits_sign dropWhile_digits_sign
          sign_not_digit parse_nat_digits Let_def)
  qed
qed

lemma TaskType_roundtrip: "TaskType_of (JStr (TaskType_value ty)) = Inr ty"
  by (cases ty) (simp_all add: TaskType_of_def)

lemma TaskStatus_roundtrip: "TaskStatus_of (JStr (TaskStatus_value st)) = Inr st"
  by (cases st) (simp_all add: TaskStatus_of_def)

lemma fromisoformat_opt_roundtrip:
  assumes "map_of kvs k = Some (isoformat_opt d)" "case d of None \<Rightarrow> True | Some t \<Rightarrow> valid_datetime t"
  shows "fromisoformat_opt kvs k = Inr d"
  using assms
  by (cases d) (simp_all add: fromisoformat_opt_def dict_get_def isoformat_opt_def subscript_def
      and_then_def fromisoformat_isoformat isoformat_nonempty)

lemma from_dict_to_dict:
  assumes "valid_task t"
  shows "from_dict (to_dict t) = Inr t"
proof -
  let ?kvs = "[(''task_id'', JStr (task_id t)),
      (''task_type'', JStr (TaskType_value (task_type t))),
      (''source_path'', JStr (source_path t)),
      (''dest_path'', JStr (dest_path t)),
      (''scheduled_time'', JStr (isoformat (scheduled_time t))),
      (''recurring'', JBool (recurring t)),
      (''interval_minutes'', JInt (interval_minutes t)),
      (''status'', JStr (TaskStatus_value (status t))),
      (''last_run'', isoformat_opt (last_run t)),
      (''next_run'', isoformat_opt (next_run t)),
      (''error_message'', JStr (error_message t))]"
  have lr: "fromisoformat_opt ?kvs ''last_run'' = Inr (last_run t)"
    by (rule fromisoformat_opt_roundtrip) (use assms in \<open>simp_all add: valid_task_def\<close>)
  have nr: "fromisoformat_opt ?kvs ''next_run'' = Inr (next_run t)"
    by (rule fromisoformat_opt_roundtrip) (use assms in \<open>simp_all add: valid_task_def\<close>)
  have st: "fromisoformat (isoformat (scheduled_time t)) = Inr (scheduled_time t)"
    using assms by (simp add: fromisoformat_isoformat valid_task_def)
  show ?thesis
    unfolding to_dict_def from_dict.simps from_record_def lr nr
    by (simp add: subscript_def dict_get_def and_then_def st TaskType_roundtrip TaskStatus_roundtrip)
qed

lemma update_fresh: "k \<notin> fst ` set al \<Longrightarrow> AList.update k v al = al @ [(k, v)]"
  by (induction al) auto

lemma load_records_to_dict:
  assumes "wf_store kts" "fst ` set acc \<inter> fst ` set kts = {}"
  shows "load_records (map (\<lambda>kv. to_dict (snd kv)) kts) acc = (None, acc @ kts)"
  using assms
proof (induction kts arbitrary: acc)
  case Nil
  then show ?case by simp
next
  case (Cons kt kts)
  obtain k t where kt: "kt = (k, t)" by (cases kt)
  from Cons.prems kt have t: "valid_task t" "k = task_id t" and wf: "wf_store kts"
    and fresh: "k \<notin> fst ` set acc" "k \<notin> fst ` set kts"
    by (auto simp: wf_store_def)
  have "fst ` set (acc @ [(k, t)]) \<inter> fst ` set kts = {}"
    using Cons.prems(2) fresh kt by auto
  from Cons.IH [OF wf this] t fresh show ?case
    by (simp add: kt from_dict_to_dict update_fresh)
qed

lemma load_records_stops:
  assumes "\<forall>d \<in> set ds. \<exists>t. from_dict d = Inr t" "from_dict bad = Inl e"
  shows "load_records (ds @ bad # rest) acc = (Some e, snd (load_records ds acc)) \<and>
         fst (load_records ds acc) = None"
  using assms(1)
proof (induction ds arbitrary: acc)
  case Nil
  then show ?case using assms(2) by simp
next
  case (Cons d ds)
  then obtain t where t: "from_dict d = Inr t" by auto
  from Cons.IH [of "AList.update (task_id t) t acc"] Cons.prems t show ?case by simp
qed

lemma save_tasks_returns: "fst (save_tasks s w) = Returns ()"
  by (simp add: save_tasks_def save_tasks_try_def split: option.splits write_failure.splits)

lemma save_tasks_open_fails:
  "write_error w (tasks_file s) = Some (Open_fails msg) \<Longrightarrow>
     save_tasks s w = (Returns (), logger ERROR (Failed_to_save (OSError msg)) w)"
  by (simp add: save_tasks_def save_tasks_try_def)

lemma save_tasks_dump_fails:
  "write_error w (tasks_file s) = Some (Dump_fails e msg) \<Longrightarrow>
     save_tasks s w =
       (Returns (),
        logger ERROR (Failed_to_save e)
          (w\<lparr>files := (files w)(tasks_file s := Unreadable (JSONDecodeError msg))\<rparr>))"
  by (simp add: save_tasks_def save_tasks_try_def)

lemma save_tasks_writing:
  "write_error w (tasks_file s) = None \<Longrightarrow>
     save_tasks s w = (Returns (),
       w\<lparr>files := (files w)(tasks_file s := Content (JArr (map (\<lambda>kv. to_dict (snd kv)) (tasks s))))\<rparr>)"
  by (simp add: save_tasks_def save_tasks_try_def)

lemma all_less_3: "(\<forall>j<3. P j) \<longleftrightarrow> P 0 \<and> P 1 \<and> P (2::nat)"
  by (auto simp: numeral_3_eq_3 less_Suc_eq numeral_2_eq_2)

lemma all_le_3: "(\<forall>j\<le>3. P j) \<longleftrightarrow> P 0 \<and> P 1 \<and> P 2 \<and> P (3::nat)"
  by (auto simp: numeral_3_eq_3 le_Suc_eq numeral_2_eq_2)

lemma is_due_iff:
  "is_due now t \<longleftrightarrow>
     status t = PENDING \<and> (\<exists>nr. next_run t = Some (Naive nr) \<and> nr \<le> now)"
proof (cases "next_run t")
  case None
  then show ?thesis by (simp add: is_due_def)
next
  case (Some d)
  then show ?thesis by (cases d) (simp_all add: is_due_def)
qed

lemma never_escapes_ex_scheduler:
  "(\<forall>m. answer \<noteq> Escaped m) \<Longrightarrow> never_escapes (ex_scheduler ts answer)"
  by (simp add: never_escapes_def ex_scheduler_def)

lemma ex_interrupting_loop:
  "fst (scheduler_loop (Suc n) ex_interrupting ex_world) = Escapes ''interrupted''"
proof -
  let ?s = ex_interrupting and ?w1 = "snd (datetime_now ex_world)"
  have h: "0 < length (tasks ?s)" "task_executor ?s = Some (\<lambda>n t. Escaped ''interrupted'')"
    by (simp_all add: ex_interrupting_def ex_scheduler_def)
  have e: "executor_answer (\<lambda>n t. Escaped ''interrupted'') ?s ?w1 0 = Escaped ''interrupted''"
    by (simp add: executor_answer_def)
  have ex: "fst (execute_task 0 ?s ?w1) = Escapes ''interrupted''"
    using execute_task_escaped(1) [OF h execute_task_collapse [of 0 ?s ?w1] e] by simp
  have d: "is_due (clock ex_world (ticks ex_world)) (task_at ?s 0)" "\<not> stuck (task_at ?s 0)"
    by (simp_all add: is_due_def stuck_def task_at_def ex_interrupting_def ex_scheduler_def ex_task_def
        ex_world_def ex_clock_def)
  have l: "length (tasks ?s) = 1" by (simp add: ex_interrupting_def ex_scheduler_def)
  have "fst (check_and_execute_tasks ?s ex_world) = Escapes ''interrupted''"
    using ex d scan_step [of 0 1 "clock ex_world (ticks ex_world)" ?s ?w1]
    by (cases "execute_task 0 ?s ?w1") (simp add: check_and_execute_tasks_scan l)
  then have "fst (loop_body ?s ex_world) = Escapes ''interrupted''"
    by (cases "check_and_execute_tasks ?s ex_world") (simp add: loop_body_def)
  moreover have "running ?s" by (simp add: ex_interrupting_def ex_scheduler_def)
  ultimately show ?thesis
    by (cases "loop_body ?s ex_world") simp
qed

lemma save_tasks_fails:
  assumes "write_error w (tasks_file s) = Some f"
  shows "fst (save_tasks s w) = Returns ()"
    "logged (snd (save_tasks s w)) = logged w @ [(ERROR, Failed_to_save (failure_exn f))]"
    "files (snd (save_tasks s w)) = file_after f (tasks_file s) (files w)"
  using assms
  by (cases f; simp add: save_tasks_open_fails save_tasks_dump_fails logger_def failure_exn_def
      file_after_def)+

lemma load_tasks_returns: "fst (load_tasks s w) = Returns ()"
proof (cases "files w (tasks_file s)")
  case Missing
  then show ?thesis by (simp add: load_tasks_def)
next
  case (Unreadable e)
  then show ?thesis by (simp add: load_tasks_def load_tasks_try_def)
next
  case (Content j)
  show ?thesis
  proof (cases "py_iter j")
    case (Inl e)
    with Content show ?thesis by (simp add: load_tasks_def load_tasks_try_def)
  next
    case (Inr ds)
    obtain r ts where l: "load_records ds [] = (r, ts)" by (cases "load_records ds []")
    with Content Inr show ?thesis
      by (cases r) (simp_all add: load_tasks_def load_tasks_try_def)
  qed
qed

section \<open>Properties of the scheduler\<close>

subsection \<open>Due selection\<close>

text \<open>
  C1, as stated, at a store whose first task is pending with no next run and whose second
  task is pending and due: the scan is left by the error that the due check raises on the
  first task, and the second, though pending with \<open>next_run \<le> now\<close>, is not selected in
  that cycle.
\<close>

theorem due_selection_counterexample:
  "status (task_at (ex_scheduler ex_tasks2 (Returned True)) 1) = PENDING \<and>
   next_run (task_at (ex_scheduler ex_tasks2 (Returned True)) 1) = Some (Naive 5) \<and>
   5 \<le> clock ex_world (ticks ex_world) \<and>
   1 \<notin> set (selected_in_cycle (ex_scheduler ex_tasks2 (Returned True)) ex_world)"
proof -
  let ?s = "ex_scheduler ex_tasks2 (Returned True)"
  have "stuck (task_at ?s 0)"
    by (simp add: stuck_def task_at_def ex_scheduler_def ex_tasks2_def ex_task_def)
  then have "1 \<notin> set (selected_in_cycle ?s ex_world)"
    using selected_in_cycle_sound [of 1 ?s ex_world] by auto
  then show ?thesis
    by (simp add: task_at_def ex_scheduler_def ex_tasks2_def ex_task_def ex_world_def ex_clock_def)
qed

text \<open>
  C1, amended. In every cycle, with \<open>now\<close> the clock reading taken at the start of the
  scan: a task that is selected is in the store, is pending, and has a next run
  \<open>\<le> now\<close> (so a task with any other status is never selected, whatever its next run);
  and a pending task with next run \<open>\<le> now\<close> is selected, provided the scan gets past
  it, that is, is not left by an error before it has dealt with that task. A cycle that
  ends normally got past every task of the store; and the scan gets past a task whenever
  the executor raises nothing outside \<^verbatim>\<open>Exception\<close> and the due check raises on no task
  up to and including that one.
\<close>

theorem due_selection:
  "(i \<in> set (selected_in_cycle s w) \<longrightarrow>
      i < length (tasks s) \<and> status (task_at s i) = PENDING \<and>
      (\<exists>nr. next_run (task_at s i) = Some (Naive nr) \<and> nr \<le> clock w (ticks w))) \<and>
   (i < length (tasks s) \<and> scan_gets_past s w i \<and>
    status (task_at s i) = PENDING \<and>
    (\<exists>nr. next_run (task_at s i) = Some (Naive nr) \<and> nr \<le> clock w (ticks w)) \<longrightarrow>
      i \<in> set (selected_in_cycle s w)) \<and>
   (fst (check_and_execute_tasks s w) = Returns () \<longrightarrow>
      (\<forall>k < length (tasks s). scan_gets_past s w k)) \<and>
   (i < length (tasks s) \<and> never_escapes s \<and> (\<forall>j \<le> i. \<not> stuck (task_at s j)) \<longrightarrow>
      scan_gets_past s w i)"
proof -
  have sound: "i < length (tasks s) \<and> status (task_at s i) = PENDING \<and>
      (\<exists>nr. next_run (task_at s i) = Some (Naive nr) \<and> nr \<le> clock w (ticks w))"
    if "i \<in> set (selected_in_cycle s w)"
    using selected_in_cycle_sound [OF that] by (simp add: is_due_iff)
  have complete: "i \<in> set (selected_in_cycle s w)"
    if "i < length (tasks s)" "scan_gets_past s w i" "status (task_at s i) = PENDING"
      "\<exists>nr. next_run (task_at s i) = Some (Naive nr) \<and> nr \<le> clock w (ticks w)"
    using selected_in_cycle_complete [OF that(1,2)] that(3,4) by (simp add: is_due_iff)
  have whole: "\<forall>k < length (tasks s). scan_gets_past s w k"
    if "fst (check_and_execute_tasks s w) = Returns ()"
    using scan_gets_past_all [OF that] by blast
  have enough: "scan_gets_past s w i"
    if "i < length (tasks s)" "never_escapes s" "\<forall>j \<le> i. \<not> stuck (task_at s j)"
    by (rule scan_gets_past_if [OF that])
  from sound complete whole enough show ?thesis by blast
qed

theorem due_selection_witness:
  "3 \<in> set (selected_in_cycle (ex_scheduler ex_tasks1 (Returned True)) ex_world) \<and>
   1 \<notin> set (selected_in_cycle (ex_scheduler ex_tasks1 (Returned True)) ex_world)"
proof -
  let ?s = "ex_scheduler ex_tasks1 (Returned True)"
  have len: "3 < length (tasks ?s)" by (simp add: ex_scheduler_def ex_tasks1_def)
  have ns: "\<forall>j \<le> 3. \<not> stuck (task_at ?s j)"
    by (simp add: all_le_3 stuck_def task_at_def ex_scheduler_def ex_tasks1_def ex_task_def)
  have ne: "never_escapes ?s" by (simp add: never_escapes_ex_scheduler)
  have due: "status (task_at ?s 3) = PENDING \<and>
    (\<exists>nr. next_run (task_at ?s 3) = Some (Naive nr) \<and> nr \<le> clock ex_world (ticks ex_world))"
    by (simp add: task_at_def ex_scheduler_def ex_tasks1_def ex_task_def ex_world_def ex_clock_def)
  have np: "status (task_at ?s 1) \<noteq> PENDING"
    by (simp add: task_at_def ex_scheduler_def ex_tasks1_def ex_task_def)
  from len ne ns due np show ?thesis
    using due_selection [of 3 ?s ex_world] due_selection [of 1 ?s ex_world] by blast
qed

subsection \<open>Recurrence on success\<close>

text \<open>
  C2, as stated, at two recurring tasks that succeed: one with interval 0, which ends
  \<open>COMPLETED\<close> instead of \<open>PENDING\<close>; and one whose interval carries the next run
  beyond the last representable \<^verbatim>\<open>datetime\<close>, where the date arithmetic raises inside
  the \<^verbatim>\<open>try\<close> and the task ends \<open>FAILED\<close>.
\<close>

theorem recurrence_counterexample:
  "recurring (ex_recurring 0) \<and>
   executor_answer (\<lambda>n t. Returned True) (ex_scheduler [ex_recurring 0] (Returned True)) ex_world 0
     = Returned True \<and>
   status (task_at (fst (snd (execute_task 0 (ex_scheduler [ex_recurring 0] (Returned True)) ex_world))) 0)
     = COMPLETED \<and>
   recurring (ex_recurring 6000000000) \<and>
   executor_answer (\<lambda>n t. Returned True) (ex_scheduler [ex_recurring 6000000000] (Returned True)) ex_world 0
     = Returned True \<and>
   status (task_at (fst (snd (execute_task 0 (ex_scheduler [ex_recurring 6000000000] (Returned True)) ex_world))) 0)
     = FAILED"
proof -
  let ?s = "ex_scheduler [ex_recurring 0] (Returned True)"
  let ?s' = "ex_scheduler [ex_recurring 6000000000] (Returned True)"
  have h: "0 < length (tasks ?s)" "task_executor ?s = Some (\<lambda>n t. Returned True)"
    and h': "0 < length (tasks ?s')" "task_executor ?s' = Some (\<lambda>n t. Returned True)"
    by (simp_all add: ex_scheduler_def)
  have t: "recurring (task_at ?s 0)" "interval_minutes (task_at ?s 0) = 0"
    "recurring (task_at ?s' 0)" "interval_minutes (task_at ?s' 0) = 6000000000"
    by (simp_all add: ex_scheduler_def task_at_def ex_recurring_def)
  have a: "add_minutes (clock ex_world (Suc (ticks ex_world))) 6000000000 = Inl ''date value out of range''"
    by (simp add: add_minutes_def Let_def MAXDT_def ex_world_def ex_clock_def)
  have e: "executor_answer (\<lambda>n t. Returned True) ?s ex_world 0 = Returned True"
    "executor_answer (\<lambda>n t. Returned True) ?s' ex_world 0 = Returned True"
    by (simp_all add: executor_answer_def)
  from execute_task_cases [OF h execute_task_collapse [of 0 ?s ex_world]] e t
  have 1: "status (task_at (fst (snd (execute_task 0 ?s ex_world))) 0) = COMPLETED"
    by simp
  from execute_task_cases [OF h' execute_task_collapse [of 0 ?s' ex_world]] e t a
  have 2: "status (task_at (fst (snd (execute_task 0 ?s' ex_world))) 0) = FAILED"
    by simp
  from 1 2 e show ?thesis by (simp add: ex_recurring_def)
qed

text \<open>
  C2, amended. Let the executor report success for the task at position \<open>i\<close>, and let
  \<open>T\<close> be the clock reading from which the next run is computed (the second reading
  after the executor returns; the first becomes the last run). If the task is recurring
  with a positive interval of \<open>m\<close> minutes and \<open>T\<close> plus \<open>m\<close> minutes is a
  representable \<^verbatim>\<open>datetime\<close>, the task ends \<open>PENDING\<close> with next run \<open>T\<close> plus
  \<open>m\<close> minutes. If the task is not recurring, or its interval is not positive, it ends
  \<open>COMPLETED\<close>, and no later pass of the loop selects it or changes that status.
\<close>

theorem recurrence_on_success:
  assumes "i < length (tasks s)" "task_executor s = Some ex"
    and "executor_answer ex s w i = Returned True"
    and "execute_task i s w = (r, s1, w1)"
  shows "(recurring (task_at s i) \<and> 0 < interval_minutes (task_at s i) \<and>
          clock w (Suc (ticks w)) + nat (interval_minutes (task_at s i)) * 60000000 \<le> MAXDT \<longrightarrow>
            status (task_at s1 i) = PENDING \<and>
            next_run (task_at s1 i) =
              Some (Naive (clock w (Suc (ticks w)) + nat (interval_minutes (task_at s i)) * 60000000))) \<and>
         (\<not> (recurring (task_at s i) \<and> 0 < interval_minutes (task_at s i)) \<longrightarrow>
            status (task_at s1 i) = COMPLETED \<and>
            (\<forall>n. i \<notin> set (selected_in_loop n s1 w1) \<and>
                 status (task_at (fst (snd (scheduler_loop n s1 w1))) i) = COMPLETED))"
proof -
  have len: "i < length (tasks s1)" using execute_task_frame [OF assms(4)] assms(1) by simp
  have rec: "status (task_at s1 i) = PENDING \<and>
            next_run (task_at s1 i) =
              Some (Naive (clock w (Suc (ticks w)) + nat (interval_minutes (task_at s i)) * 60000000))"
    if "recurring (task_at s i)" "0 < interval_minutes (task_at s i)"
       "clock w (Suc (ticks w)) + nat (interval_minutes (task_at s i)) * 60000000 \<le> MAXDT"
    using execute_task_again(2) [OF assms(1,2,4,3) that(1,2) add_minutes_in_range [OF that(2,3)]]
    by simp
  have once: "status (task_at s1 i) = COMPLETED \<and>
            (\<forall>n. i \<notin> set (selected_in_loop n s1 w1) \<and>
                 status (task_at (fst (snd (scheduler_loop n s1 w1))) i) = COMPLETED)"
    if "\<not> (recurring (task_at s i) \<and> 0 < interval_minutes (task_at s i))"
  proof -
    from execute_task_once(2) [OF assms(1,2,4,3) that]
    have c: "status (task_at s1 i) = COMPLETED" by simp
    then have "status (task_at s1 i) \<noteq> PENDING" by simp
    from not_pending_never_selected [OF len this] c show ?thesis by simp
  qed
  from rec once show ?thesis by blast
qed

theorem recurrence_on_success_witness:
  "status (task_at (fst (snd (execute_task 0 (ex_scheduler [ex_recurring 30] (Returned True)) ex_world))) 0)
     = PENDING \<and>
   next_run (task_at (fst (snd (execute_task 0 (ex_scheduler [ex_recurring 30] (Returned True)) ex_world))) 0)
     = Some (Naive 1800001001) \<and>
   status (task_at (fst (snd (execute_task 0
       (ex_scheduler [ex_task ''a'' PENDING (Some (Naive 5))] (Returned True)) ex_world))) 0)
     = COMPLETED \<and>
   0 \<notin> set (selected_in_loop 3
      (fst (snd (execute_task 0 (ex_scheduler [ex_task ''a'' PENDING (Some (Naive 5))] (Returned True)) ex_world)))
      (snd (snd (execute_task 0 (ex_scheduler [ex_task ''a'' PENDING (Some (Naive 5))] (Returned True)) ex_world))))"
proof -
  let ?s = "ex_scheduler [ex_recurring 30] (Returned True)"
  let ?s' = "ex_scheduler [ex_task ''a'' PENDING (Some (Naive 5))] (Returned True)"
  have h: "0 < length (tasks ?s)" "task_executor ?s = Some (\<lambda>n t. Returned True)"
      "executor_answer (\<lambda>n t. Returned True) ?s ex_world 0 = Returned True"
    and h': "0 < length (tasks ?s')" "task_executor ?s' = Some (\<lambda>n t. Returned True)"
      "executor_answer (\<lambda>n t. Returned True) ?s' ex_world 0 = Returned True"
    by (simp_all add: ex_scheduler_def executor_answer_def)
  have t: "recurring (task_at ?s 0)" "interval_minutes (task_at ?s 0) = 30"
    "\<not> recurring (task_at ?s' 0)"
    by (simp_all add: ex_scheduler_def task_at_def ex_recurring_def ex_task_def)
  have c: "clock ex_world (Suc (ticks ex_world)) = 1001" by (simp add: ex_world_def ex_clock_def)
  from recurrence_on_success [OF h execute_task_collapse [of 0 ?s ex_world]]
    recurrence_on_success [OF h' execute_task_collapse [of 0 ?s' ex_world]] t c
  show ?thesis by (simp add: MAXDT_def)
qed

subsection \<open>Failure does not advance recurrence\<close>

text \<open>
  C3, as stated, at a recurring task whose executor raises outside \<^verbatim>\<open>Exception\<close> (an
  interrupt): the handler of \<^verbatim>\<open>_execute_task\<close> does not catch the raise, which leaves
  the method, and the task is left \<open>RUNNING\<close>, not \<open>FAILED\<close>.
\<close>

theorem failure_keeps_next_run_counterexample:
  "recurring (ex_recurring 30) \<and>
   executor_answer (\<lambda>n t. Escaped ''interrupted'')
      (ex_scheduler [ex_recurring 30] (Escaped ''interrupted'')) ex_world 0 = Escaped ''interrupted'' \<and>
   fst (execute_task 0 (ex_scheduler [ex_recurring 30] (Escaped ''interrupted'')) ex_world)
     = Escapes ''interrupted'' \<and>
   status (task_at (fst (snd (execute_task 0
       (ex_scheduler [ex_recurring 30] (Escaped ''interrupted'')) ex_world))) 0) = RUNNING"
proof -
  let ?s = "ex_scheduler [ex_recurring 30] (Escaped ''interrupted'')"
  have h: "0 < length (tasks ?s)" "task_executor ?s = Some (\<lambda>n t. Escaped ''interrupted'')"
    by (simp_all add: ex_scheduler_def)
  have e: "executor_answer (\<lambda>n t. Escaped ''interrupted'') ?s ex_world 0 = Escaped ''interrupted''"
    by (simp add: executor_answer_def)
  from execute_task_cases [OF h execute_task_collapse [of 0 ?s ex_world]] e
  show ?thesis by (simp add: ex_recurring_def)
qed

text \<open>
  C3, amended. When the executor returns false or raises an \<^verbatim>\<open>Exception\<close> for the task
  at position \<open>i\<close> (recurring or not), the task ends \<open>FAILED\<close>; when the executor
  raises outside \<^verbatim>\<open>Exception\<close>, the task is left \<open>RUNNING\<close>. In each of these cases the
  next run is what it was before the execution, and no later pass of the loop selects the
  task or changes it. No cycle, from any state, selects a task whose status is
  \<open>FAILED\<close>.
\<close>

theorem failure_keeps_next_run:
  assumes "i < length (tasks s)" "task_executor s = Some ex"
    and "execute_task i s w = (r, s1, w1)"
  shows "(executor_answer ex s w i = Returned False \<or>
          (\<exists>msg. executor_answer ex s w i = Raised msg) \<longrightarrow> status (task_at s1 i) = FAILED) \<and>
         (\<forall>m. executor_answer ex s w i = Escaped m \<longrightarrow> status (task_at s1 i) = RUNNING) \<and>
         (executor_answer ex s w i \<noteq> Returned True \<longrightarrow>
            next_run (task_at s1 i) = next_run (task_at s i) \<and>
            (\<forall>n. i \<notin> set (selected_in_loop n s1 w1) \<and>
                 task_at (fst (snd (scheduler_loop n s1 w1))) i = task_at s1 i)) \<and>
         (\<forall>s2 w2. status (task_at s2 i) = FAILED \<longrightarrow> i \<notin> set (selected_in_cycle s2 w2))"
proof -
  have len: "i < length (tasks s1)" using execute_task_frame [OF assms(3)] assms(1) by simp
  have false: "task_at s1 i = (task_at s i)\<lparr>status := FAILED, error_message := ''Task execution failed''\<rparr>"
    if "executor_answer ex s w i = Returned False"
    by (rule execute_task_false(2) [OF assms that])
  have raised: "task_at s1 i = (task_at s i)\<lparr>status := FAILED, error_message := msg\<rparr>"
    if "executor_answer ex s w i = Raised msg" for msg
    by (rule execute_task_raised(2) [OF assms that])
  have escaped: "task_at s1 i = (task_at s i)\<lparr>status := RUNNING\<rparr>"
    if "executor_answer ex s w i = Escaped m" for m
    by (rule execute_task_escaped(2) [OF assms that])
  have failed: "status (task_at s1 i) = FAILED"
    if "executor_answer ex s w i = Returned False \<or> (\<exists>msg. executor_answer ex s w i = Raised msg)"
  proof -
    from that consider "executor_answer ex s w i = Returned False"
      | msg where "executor_answer ex s w i = Raised msg" by blast
    then show ?thesis
    proof cases
      case 1 then show ?thesis using false by simp
    next
      case 2 then show ?thesis using raised by simp
    qed
  qed
  have running: "status (task_at s1 i) = RUNNING" if "executor_answer ex s w i = Escaped m" for m
    using escaped [OF that] by simp
  have rest: "next_run (task_at s1 i) = next_run (task_at s i) \<and>
            (\<forall>n. i \<notin> set (selected_in_loop n s1 w1) \<and>
                 task_at (fst (snd (scheduler_loop n s1 w1))) i = task_at s1 i)"
    if "executor_answer ex s w i \<noteq> Returned True"
  proof -
    have "next_run (task_at s1 i) = next_run (task_at s i) \<and> status (task_at s1 i) \<noteq> PENDING"
    proof (cases "executor_answer ex s w i")
      case (Returned b)
      with that have "executor_answer ex s w i = Returned False" by (cases b) simp_all
      from false [OF this] show ?thesis by simp
    next
      case (Raised msg)
      from raised [OF this] show ?thesis by simp
    next
      case (Escaped m)
      from escaped [OF this] show ?thesis by simp
    qed
    with not_pending_never_selected [OF len] show ?thesis by blast
  qed
  have never: "i \<notin> set (selected_in_cycle s2 w2)" if "status (task_at s2 i) = FAILED" for s2 w2
  proof
    assume "i \<in> set (selected_in_cycle s2 w2)"
    from selected_in_cycle_sound [OF this] that show False by (simp add: is_due_def)
  qed
  from failed running rest never show ?thesis by blast
qed

theorem failure_keeps_next_run_witness:
  "status (task_at (fst (snd (execute_task 0 (ex_scheduler [ex_recurring 30] (Raised ''timeout'')) ex_world))) 0) = FAILED \<and>
   next_run (task_at (fst (snd (execute_task 0 (ex_scheduler [ex_recurring 30] (Raised ''timeout'')) ex_world))) 0)
     = Some (Naive 5) \<and>
   0 \<notin> set (selected_in_loop 3 (fst (snd (execute_task 0 (ex_scheduler [ex_recurring 30] (Raised ''timeout'')) ex_world)))
        (snd (snd (execute_task 0 (ex_scheduler [ex_recurring 30] (Raised ''timeout'')) ex_world))))"
proof -
  let ?s = "ex_scheduler [ex_recurring 30] (Raised ''timeout'')"
  have h: "0 < length (tasks ?s)" "task_executor ?s = Some (\<lambda>n t. Raised ''timeout'')"
    by (simp_all add: ex_scheduler_def)
  have a: "executor_answer (\<lambda>n t. Raised ''timeout'') ?s ex_world 0 = Raised ''timeout''"
    by (simp add: executor_answer_def)
  have nr: "next_run (task_at ?s 0) = Some (Naive 5)"
    by (simp add: task_at_def ex_scheduler_def ex_recurring_def ex_task_def)
  from failure_keeps_next_run [OF h execute_task_collapse [of 0 ?s ex_world]] a nr
  show ?thesis by simp
qed

subsection \<open>Execution failure handling\<close>

text \<open>
  C4, as stated, at an executor that returns false: the error message recorded on the task
  is not the empty string. And at an executor that raises outside \<^verbatim>\<open>Exception\<close>: the
  raise leaves \<^verbatim>\<open>_execute_task\<close> with the task \<open>RUNNING\<close>, and it ends the loop
  although \<^verbatim>\<open>running\<close> is set.
\<close>

theorem failure_message_counterexample:
  "executor_answer (\<lambda>n t. Returned False) ex_refusing ex_world 0 = Returned False \<and>
   error_message (task_at (fst (snd (execute_task 0 ex_refusing ex_world))) 0) \<noteq> '''' \<and>
   executor_answer (\<lambda>n t. Escaped ''interrupted'') ex_interrupting ex_world 0
     = Escaped ''interrupted'' \<and>
   fst (execute_task 0 ex_interrupting ex_world) = Escapes ''interrupted'' \<and>
   status (task_at (fst (snd (execute_task 0 ex_interrupting ex_world))) 0) = RUNNING \<and>
   running ex_interrupting \<and>
   fst (scheduler_loop 3 ex_interrupting ex_world) = Escapes ''interrupted''"
proof -
  have h: "0 < length (tasks ex_refusing)" "task_executor ex_refusing = Some (\<lambda>n t. Returned False)"
    and h': "0 < length (tasks ex_interrupting)"
      "task_executor ex_interrupting = Some (\<lambda>n t. Escaped ''interrupted'')"
    by (simp_all add: ex_refusing_def ex_interrupting_def ex_scheduler_def)
  have e: "executor_answer (\<lambda>n t. Returned False) ex_refusing ex_world 0 = Returned False"
    and e': "executor_answer (\<lambda>n t. Escaped ''interrupted'') ex_interrupting ex_world 0
      = Escaped ''interrupted''"
    by (simp_all add: executor_answer_def)
  have 1: "error_message (task_at (fst (snd (execute_task 0 ex_refusing ex_world))) 0) \<noteq> ''''"
    using execute_task_false(2) [OF h execute_task_collapse [of 0 ex_refusing ex_world] e] by simp
  have 2: "fst (execute_task 0 ex_interrupting ex_world) = Escapes ''interrupted''"
    "status (task_at (fst (snd (execute_task 0 ex_interrupting ex_world))) 0) = RUNNING"
    using execute_task_escaped [OF h' execute_task_collapse [of 0 ex_interrupting ex_world] e']
    by simp_all
  have 3: "fst (scheduler_loop 3 ex_interrupting ex_world) = Escapes ''interrupted''"
    using ex_interrupting_loop [of 2] by (simp add: numeral_3_eq_3)
  have 4: "running ex_interrupting" by (simp add: ex_interrupting_def ex_scheduler_def)
  from e e' 1 2 3 4 show ?thesis by blast
qed

text \<open>
  C4, amended. When the executor raises an \<^verbatim>\<open>Exception\<close> or returns false for the task
  at position \<open>i\<close>, \<^verbatim>\<open>_execute_task\<close> returns normally and the task ends \<open>FAILED\<close>;
  its error message is the exception's message when the executor raised, and the fixed
  text \<^verbatim>\<open>Task execution failed\<close> when the executor returned false. Whatever the executor
  does, \<^verbatim>\<open>_execute_task\<close> leaves \<^verbatim>\<open>running\<close> as it was. If the executor raises
  nothing outside \<^verbatim>\<open>Exception\<close>: a scan over a store on none of whose tasks the due
  check raises returns normally; and the loop returns normally from any number of passes,
  never clears \<^verbatim>\<open>running\<close> and, while it is set, makes every pass it is given (each
  pass reads the clock at least once).
\<close>

theorem execution_failure_handling:
  assumes "i < length (tasks s)" "task_executor s = Some ex" "execute_task i s w = (r, s1, w1)"
  shows "(\<forall>msg. executor_answer ex s w i = Raised msg \<longrightarrow>
            r = Returns () \<and> status (task_at s1 i) = FAILED \<and> error_message (task_at s1 i) = msg) \<and>
         (executor_answer ex s w i = Returned False \<longrightarrow>
            r = Returns () \<and> status (task_at s1 i) = FAILED \<and>
            error_message (task_at s1 i) = ''Task execution failed'') \<and>
         running s1 = running s \<and>
         (never_escapes s \<longrightarrow>
            ((\<forall>j < length (tasks s). \<not> stuck (task_at s j)) \<longrightarrow>
               fst (check_and_execute_tasks s w) = Returns ()) \<and>
            (\<forall>n. fst (scheduler_loop n s w) = Returns () \<and>
                 running (fst (snd (scheduler_loop n s w))) = running s \<and>
                 (running s \<longrightarrow> ticks w + n \<le> ticks (snd (snd (scheduler_loop n s w))))))"
proof -
  have raised: "r = Returns () \<and> status (task_at s1 i) = FAILED \<and> error_message (task_at s1 i) = msg"
    if "executor_answer ex s w i = Raised msg" for msg
    using execute_task_raised [OF assms that] by simp
  have false: "r = Returns () \<and> status (task_at s1 i) = FAILED \<and>
            error_message (task_at s1 i) = ''Task execution failed''"
    if "executor_answer ex s w i = Returned False"
    using execute_task_false [OF assms that] by simp
  have run: "running s1 = running s" using execute_task_frame [OF assms(3)] by simp
  have scan: "fst (check_and_execute_tasks s w) = Returns ()"
    if "never_escapes s" "\<forall>j < length (tasks s). \<not> stuck (task_at s j)"
    using check_and_execute_tasks_outcome [OF that(1), of w] that(2) by simp
  have lp: "fst (scheduler_loop n s w) = Returns () \<and>
                 running (fst (snd (scheduler_loop n s w))) = running s \<and>
                 (running s \<longrightarrow> ticks w + n \<le> ticks (snd (snd (scheduler_loop n s w))))"
    if "never_escapes s" for n
  proof -
    obtain r3 s3 w3 where l: "scheduler_loop n s w = (r3, s3, w3)"
      by (cases "scheduler_loop n s w")
    from scheduler_loop_passes [OF l] l that show ?thesis by simp
  qed
  from raised false run scan lp show ?thesis by blast
qed

theorem execution_failure_handling_witness:
  "status (task_at (fst (snd (execute_task 0
       (ex_scheduler [ex_task ''a'' PENDING (Some (Naive 5))] (Raised ''timeout'')) ex_world))) 0) = FAILED \<and>
   error_message (task_at (fst (snd (execute_task 0
       (ex_scheduler [ex_task ''a'' PENDING (Some (Naive 5))] (Raised ''timeout'')) ex_world))) 0)
     = ''timeout'' \<and>
   fst (check_and_execute_tasks
       (ex_scheduler [ex_task ''a'' PENDING (Some (Naive 5))] (Raised ''timeout'')) ex_world) = Returns () \<and>
   fst (scheduler_loop 3
       (ex_scheduler [ex_task ''a'' PENDING (Some (Naive 5))] (Raised ''timeout'')) ex_world) = Returns () \<and>
   3 \<le> ticks (snd (snd (scheduler_loop 3
       (ex_scheduler [ex_task ''a'' PENDING (Some (Naive 5))] (Raised ''timeout'')) ex_world)))"
proof -
  let ?s = "ex_scheduler [ex_task ''a'' PENDING (Some (Naive 5))] (Raised ''timeout'')"
  have h: "0 < length (tasks ?s)" "task_executor ?s = Some (\<lambda>n t. Raised ''timeout'')"
    by (simp_all add: ex_scheduler_def)
  have a: "executor_answer (\<lambda>n t. Raised ''timeout'') ?s ex_world 0 = Raised ''timeout''"
    by (simp add: executor_answer_def)
  have ne: "never_escapes ?s" by (simp add: never_escapes_ex_scheduler)
  have ns: "\<forall>j < length (tasks ?s). \<not> stuck (task_at ?s j)"
    by (simp add: ex_scheduler_def task_at_def ex_task_def stuck_def)
  have r: "running ?s" "ticks ex_world = 0" by (simp_all add: ex_scheduler_def ex_world_def)
  from execution_failure_handling [OF h execute_task_collapse [of 0 ?s ex_world]] a ne ns r
  show ?thesis by (metis add_0)
qed

subsection \<open>Last run\<close>

text \<open>
  C5, as stated, at an executor that returns false: the attempt ends \<open>FAILED\<close> and the
  last run is still absent.
\<close>

theorem last_run_counterexample:
  "executor_answer (\<lambda>n t. Returned False) ex_refusing ex_world 0 = Returned False \<and>
   status (task_at (fst (snd (execute_task 0 ex_refusing ex_world))) 0) = FAILED \<and>
   last_run (task_at (fst (snd (execute_task 0 ex_refusing ex_world))) 0) = None"
proof -
  have h: "0 < length (tasks ex_refusing)" "task_executor ex_refusing = Some (\<lambda>n t. Returned False)"
    by (simp_all add: ex_refusing_def ex_scheduler_def)
  have e: "executor_answer (\<lambda>n t. Returned False) ex_refusing ex_world 0 = Returned False"
    by (simp add: executor_answer_def)
  have "last_run (task_at ex_refusing 0) = None"
    by (simp add: ex_refusing_def ex_scheduler_def task_at_def ex_task_def)
  with execute_task_false(2) [OF h execute_task_collapse [of 0 ex_refusing ex_world] e] e
  show ?thesis by simp
qed

text \<open>
  C5, amended. A newly constructed task has no last run. When the scheduler executes the
  task at position \<open>i\<close> and the executor reports success, the last run becomes the
  clock reading taken right after the executor returns; when the executor returns false or
  raises, the last run is left as it was.
\<close>

theorem last_run_on_success_only:
  assumes "i < length (tasks s)" "task_executor s = Some ex" "execute_task i s w = (r, s1, w1)"
  shows "last_run (fst (ScheduledTask_init tid ty src dst sched rec ivl w0)) = None \<and>
         (executor_answer ex s w i = Returned True \<longrightarrow>
            last_run (task_at s1 i) = Some (Naive (clock w (ticks w)))) \<and>
         (executor_answer ex s w i \<noteq> Returned True \<longrightarrow>
            last_run (task_at s1 i) = last_run (task_at s i))"
proof -
  have init: "last_run (fst (ScheduledTask_init tid ty src dst sched rec ivl w0)) = None"
    by (simp add: ScheduledTask_init_def datetime_now_def split: option.splits)
  have ok: "last_run (task_at s1 i) = Some (Naive (clock w (ticks w)))"
    if a: "executor_answer ex s w i = Returned True"
  proof (cases "recurring (task_at s i) \<and> 0 < interval_minutes (task_at s i)")
    case False
    from execute_task_once(2) [OF assms a False] show ?thesis by simp
  next
    case True
    then have rc: "recurring (task_at s i)" "0 < interval_minutes (task_at s i)" by simp_all
    show ?thesis
    proof (cases "add_minutes (clock w (Suc (ticks w))) (interval_minutes (task_at s i))")
      case (Inl msg)
      from execute_task_again(3) [OF assms a rc Inl] show ?thesis by simp
    next
      case (Inr nr)
      from execute_task_again(2) [OF assms a rc Inr] show ?thesis by simp
    qed
  qed
  have ko: "last_run (task_at s1 i) = last_run (task_at s i)"
    if "executor_answer ex s w i \<noteq> Returned True"
  proof (cases "executor_answer ex s w i")
    case (Returned b)
    with that have "executor_answer ex s w i = Returned False" by (cases b) simp_all
    from execute_task_false(2) [OF assms this] show ?thesis by simp
  next
    case (Raised msg)
    from execute_task_raised(2) [OF assms this] show ?thesis by simp
  next
    case (Escaped m)
    from execute_task_escaped(2) [OF assms this] show ?thesis by simp
  qed
  from init ok ko show ?thesis by blast
qed

theorem last_run_on_success_only_witness:
  "last_run (task_at (fst (snd (execute_task 0
       (ex_scheduler [ex_task ''a'' PENDING (Some (Naive 5))] (Returned True)) ex_world))) 0)
     = Some (Naive 1000) \<and>
   last_run (task_at (fst (snd (execute_task 0
       (ex_scheduler [ex_task ''a'' PENDING (Some (Naive 5))] (Raised ''timeout'')) ex_world))) 0) = None"
proof -
  let ?s = "ex_scheduler [ex_task ''a'' PENDING (Some (Naive 5))] (Returned True)"
  let ?s' = "ex_scheduler [ex_task ''a'' PENDING (Some (Naive 5))] (Raised ''timeout'')"
  have h: "0 < length (tasks ?s)" "task_executor ?s = Some (\<lambda>n t. Returned True)"
    and h': "0 < length (tasks ?s')" "task_executor ?s' = Some (\<lambda>n t. Raised ''timeout'')"
    by (simp_all add: ex_scheduler_def)
  have a: "executor_answer (\<lambda>n t. Returned True) ?s ex_world 0 = Returned True"
    "executor_answer (\<lambda>n t. Raised ''timeout'') ?s' ex_world 0 \<noteq> Returned True"
    by (simp_all add: executor_answer_def)
  have c: "clock ex_world (ticks ex_world) = 1000" by (simp add: ex_world_def ex_clock_def)
  have l: "last_run (task_at ?s' 0) = None" by (simp add: ex_scheduler_def task_at_def ex_task_def)
  from last_run_on_success_only [OF h execute_task_collapse [of 0 ?s ex_world]]
    last_run_on_success_only [OF h' execute_task_collapse [of 0 ?s' ex_world]] a c l
  show ?thesis by simp
qed

subsection \<open>Round-trip persistence\<close>

text \<open>
  C6. For a well-formed store whose file can be written, saving the tasks and then
  constructing a fresh scheduler on the same file yields a store with the same tasks under
  the same ids, in the same order, every attribute equal (absent last and next runs stay
  absent).
\<close>

theorem persistence_round_trip:
  assumes "wf_store (tasks s)" "write_error w (tasks_file s) = None"
  shows "fst (snd (TaskScheduler_init (tasks_file s) (snd (save_tasks s w)))) =
           \<lparr>tasks_file = tasks_file s, tasks = tasks s, running = False, task_executor = None\<rparr>"
proof -
  have "load_records (map (\<lambda>kv. to_dict (snd kv)) (tasks s)) [] = (None, [] @ tasks s)"
    by (rule load_records_to_dict) (use assms(1) in simp_all)
  then show ?thesis
    using assms(2)
    by (simp add: save_tasks_writing TaskScheduler_init_def load_tasks_def load_tasks_try_def)
qed

theorem persistence_round_trip_witness:
  "fst (snd (TaskScheduler_init ''scheduled_tasks.json''
      (snd (save_tasks (ex_scheduler ex_tasks4 (Returned True)) ex_world)))) =
     \<lparr>tasks_file = ''scheduled_tasks.json'', tasks = map (\<lambda>t. (task_id t, t)) ex_tasks4,
      running = False, task_executor = None\<rparr>"
proof -
  let ?s = "ex_scheduler ex_tasks4 (Returned True)"
  have h: "wf_store (tasks ?s)" "write_error ex_world (tasks_file ?s) = None"
    by (simp_all add: wf_store_def valid_task_def valid_datetime_def MAXDT_def ex_scheduler_def
        ex_tasks4_def ex_task_def ex_world_def)
  have f: "tasks_file ?s = ''scheduled_tasks.json''" "tasks ?s = map (\<lambda>t. (task_id t, t)) ex_tasks4"
    by (simp_all add: ex_scheduler_def)
  from persistence_round_trip [OF h] f show ?thesis by simp
qed

subsection \<open>Idempotent removal\<close>

text \<open>
  C7. Removing an id that \<^verbatim>\<open>get_task\<close> does not find returns false and changes neither
  the scheduler nor its environment; removing an id that it finds returns true, and
  \<^verbatim>\<open>get_task\<close> on the result finds nothing.
\<close>

theorem remove_task_idempotent:
  "(get_task tid s = None \<longrightarrow> remove_task tid s w = (Returns False, s, w)) \<and>
   (get_task tid s \<noteq> None \<longrightarrow>
      fst (remove_task tid s w) = Returns True \<and>
      get_task tid (fst (snd (remove_task tid s w))) = None)"
proof -
  have mem: "tid \<in> fst ` set (tasks s) \<longleftrightarrow> get_task tid s \<noteq> None"
    by (simp add: get_task_def map_of_eq_None_iff)
  obtain r w1 where sv: "save_tasks (s\<lparr>tasks := AList.delete tid (tasks s)\<rparr>) w = (r, w1)"
    by (cases "save_tasks (s\<lparr>tasks := AList.delete tid (tasks s)\<rparr>) w")
  with save_tasks_returns [of "s\<lparr>tasks := AList.delete tid (tasks s)\<rparr>" w]
  have r: "r = Returns ()" by simp
  show ?thesis
    using mem sv r
    by (auto simp: remove_task_def Let_def get_task_def delete_conv)
qed

theorem remove_task_idempotent_witness:
  "remove_task ''zz'' (ex_scheduler ex_tasks1 (Returned True)) ex_world
     = (Returns False, ex_scheduler ex_tasks1 (Returned True), ex_world) \<and>
   fst (remove_task ''b'' (ex_scheduler ex_tasks1 (Returned True)) ex_world) = Returns True \<and>
   get_task ''b'' (fst (snd (remove_task ''b'' (ex_scheduler ex_tasks1 (Returned True)) ex_world))) = None"
proof -
  let ?s = "ex_scheduler ex_tasks1 (Returned True)"
  have "get_task ''zz'' ?s = None" "get_task ''b'' ?s \<noteq> None"
    by (simp_all add: get_task_def ex_scheduler_def ex_tasks1_def ex_task_def)
  with remove_task_idempotent [of "''zz''" ?s ex_world] remove_task_idempotent [of "''b''" ?s ex_world]
  show ?thesis by simp
qed

subsection \<open>Load failure\<close>

text \<open>
  C8, as stated, at a task file that holds a good record followed by a record without
  \<^verbatim>\<open>task_id\<close>: the second record cannot be deserialized, and the constructed store
  holds the first task.
\<close>

theorem load_failure_counterexample:
  "files ex_partial_world ''scheduled_tasks.json'' =
     Content (JArr [to_dict (ex_task ''a'' PENDING (Some (Naive 5))), JObj []]) \<and>
   from_dict (JObj []) = Inl (KeyError ''task_id'') \<and>
   tasks (fst (snd (TaskScheduler_init ''scheduled_tasks.json'' ex_partial_world)))
     = [(''a'', ex_task ''a'' PENDING (Some (Naive 5)))]"
proof -
  have v: "valid_task (ex_task ''a'' PENDING (Some (Naive 5)))"
    by (simp add: valid_task_def valid_datetime_def MAXDT_def ex_task_def)
  have b: "from_dict (JObj []) = Inl (KeyError ''task_id'')"
    by (simp add: from_record_def subscript_def and_then_def)
  have i: "task_id (ex_task ''a'' PENDING (Some (Naive 5))) = ''a''" by (simp add: ex_task_def)
  show ?thesis
    by (simp add: ex_partial_world_def TaskScheduler_init_def load_tasks_def load_tasks_try_def
        from_dict_to_dict [OF v] b i del: from_dict.simps)
qed

text \<open>
  C8, amended. Construction never raises. With the task file missing, the store is empty
  and nothing is logged. With a file that cannot be opened or parsed, or whose content
  cannot be iterated, the failure is logged and the store is empty. When a record cannot
  be deserialized and the records before it can, the failure is logged and the store is
  what loading those earlier records gives.
\<close>

theorem load_failure_keeps_prefix:
  "fst (TaskScheduler_init file w) = Returns () \<and>
   (files w file = Missing \<longrightarrow>
      TaskScheduler_init file w = (Returns (), fresh_scheduler file, w)) \<and>
   (\<forall>e. files w file = Unreadable e \<longrightarrow>
      TaskScheduler_init file w =
        (Returns (), fresh_scheduler file, logger ERROR (Failed_to_load e) w)) \<and>
   (\<forall>j e. files w file = Content j \<and> py_iter j = Inl e \<longrightarrow>
      TaskScheduler_init file w =
        (Returns (), fresh_scheduler file, logger ERROR (Failed_to_load e) w)) \<and>
   (\<forall>j ds bad rest e.
      files w file = Content j \<and> py_iter j = Inr (ds @ bad # rest) \<and>
      (\<forall>d \<in> set ds. \<exists>t. from_dict d = Inr t) \<and> from_dict bad = Inl e \<and> e \<noteq> IllTyped \<longrightarrow>
      TaskScheduler_init file w =
        (Returns (), (fresh_scheduler file)\<lparr>tasks := snd (load_records ds [])\<rparr>,
         logger ERROR (Failed_to_load e) w) \<and>
      fst (load_records ds []) = None)"
proof -
  let ?s = "\<lparr>tasks_file = file, tasks = [], running = False, task_executor = None\<rparr>"
  have 0: "fst (TaskScheduler_init file w) = Returns ()"
    by (simp add: TaskScheduler_init_def load_tasks_returns)
  have 1: "TaskScheduler_init file w = (Returns (), fresh_scheduler file, w)"
    if "files w file = Missing"
    using that by (simp add: TaskScheduler_init_def load_tasks_def fresh_scheduler_def)
  have 2: "TaskScheduler_init file w =
        (Returns (), fresh_scheduler file, logger ERROR (Failed_to_load e) w)"
    if "files w file = Unreadable e" for e
    using that
    by (simp add: TaskScheduler_init_def load_tasks_def load_tasks_try_def fresh_scheduler_def)
  have 3: "TaskScheduler_init file w =
        (Returns (), fresh_scheduler file, logger ERROR (Failed_to_load e) w)"
    if "files w file = Content j" "py_iter j = Inl e" for j e
    using that
    by (simp add: TaskScheduler_init_def load_tasks_def load_tasks_try_def fresh_scheduler_def)
  have 4: "TaskScheduler_init file w =
        (Returns (), (fresh_scheduler file)\<lparr>tasks := snd (load_records ds [])\<rparr>,
         logger ERROR (Failed_to_load e) w) \<and>
      fst (load_records ds []) = None"
    if "files w file = Content j" "py_iter j = Inr (ds @ bad # rest)"
      "\<forall>d \<in> set ds. \<exists>t. from_dict d = Inr t" "from_dict bad = Inl e"
    for j ds bad rest e
  proof -
    from load_records_stops [OF that(3) that(4), of rest "[]"]
    have l: "load_records (ds @ bad # rest) [] = (Some e, snd (load_records ds []))"
      and n: "fst (load_records ds []) = None" by simp_all
    show ?thesis
      using that(1,2) l n
      by (simp add: TaskScheduler_init_def load_tasks_def load_tasks_try_def fresh_scheduler_def)
  qed
  from 0 1 2 3 4 show ?thesis by blast
qed

theorem load_failure_keeps_prefix_witness:
  "TaskScheduler_init ''scheduled_tasks.json'' ex_world
     = (Returns (), fresh_scheduler ''scheduled_tasks.json'', ex_world) \<and>
   TaskScheduler_init ''scheduled_tasks.json'' ex_partial_world
     = (Returns (),
        (fresh_scheduler ''scheduled_tasks.json'')\<lparr>tasks := [(''a'', ex_task ''a'' PENDING (Some (Naive 5)))]\<rparr>,
        logger ERROR (Failed_to_load (KeyError ''task_id'')) ex_partial_world)"
proof -
  let ?d = "to_dict (ex_task ''a'' PENDING (Some (Naive 5)))"
  have v: "valid_task (ex_task ''a'' PENDING (Some (Naive 5)))"
    by (simp add: valid_task_def valid_datetime_def MAXDT_def ex_task_def)
  have m: "files ex_world ''scheduled_tasks.json'' = Missing" by (simp add: ex_world_def)
  have c: "files ex_partial_world ''scheduled_tasks.json'' = Content (JArr [?d, JObj []])"
    "py_iter (JArr [?d, JObj []]) = Inr ([?d] @ JObj [] # [])"
    by (simp_all add: ex_partial_world_def)
  have ok: "\<forall>d \<in> set [?d]. \<exists>t. from_dict d = Inr t"
    using from_dict_to_dict [OF v] by simp
  have b: "from_dict (JObj []) = Inl (KeyError ''task_id'')" "KeyError ''task_id'' \<noteq> IllTyped"
    by (simp_all add: from_record_def subscript_def and_then_def)
  have l: "snd (load_records [?d] []) = [(''a'', ex_task ''a'' PENDING (Some (Naive 5)))]"
    using from_dict_to_dict [OF v] by (simp add: ex_task_def del: from_dict.simps)
  from load_failure_keeps_prefix [of "''scheduled_tasks.json''" ex_world] m
  have 1: "TaskScheduler_init ''scheduled_tasks.json'' ex_world
     = (Returns (), fresh_scheduler ''scheduled_tasks.json'', ex_world)" by blast
  from load_failure_keeps_prefix [of "''scheduled_tasks.json''" ex_partial_world] c ok b
  have "TaskScheduler_init ''scheduled_tasks.json'' ex_partial_world =
        (Returns (), (fresh_scheduler ''scheduled_tasks.json'')\<lparr>tasks := snd (load_records [?d] [])\<rparr>,
         logger ERROR (Failed_to_load (KeyError ''task_id'')) ex_partial_world)" by blast
  with 1 l show ?thesis by simp
qed

subsection \<open>Facade operations and a failing write\<close>

text \<open>
  C9, as stated, in a world where the task file cannot be opened for writing:
  \<^verbatim>\<open>add_task\<close> returns normally and \<^verbatim>\<open>remove_task\<close> returns true.
\<close>

theorem facade_error_counterexample:
  "write_error ex_readonly_world (tasks_file (ex_scheduler ex_tasks1 (Returned True)))
     = Some (Open_fails ''Permission denied'') \<and>
   fst (add_task (ex_task ''n'' PENDING (Some (Naive 5))) (ex_scheduler ex_tasks1 (Returned True))
          ex_readonly_world) = Returns () \<and>
   fst (remove_task ''b'' (ex_scheduler ex_tasks1 (Returned True)) ex_readonly_world) = Returns True"
proof -
  have "''b'' \<in> fst ` set (tasks (ex_scheduler ex_tasks1 (Returned True)))"
    by (simp add: ex_scheduler_def ex_tasks1_def ex_task_def)
  then show ?thesis
    by (simp add: add_task_def remove_task_def Let_def save_tasks_open_fails ex_readonly_world_def)
qed

text \<open>
  C9, amended. When writing the task file fails, in \<^verbatim>\<open>open\<close> or in \<^verbatim>\<open>json.dump\<close>,
  \<^verbatim>\<open>add_task\<close> returns normally with the task stored in memory, and \<^verbatim>\<open>remove_task\<close>
  of a present id returns true with the task removed from memory. In both cases the
  exception is logged, followed by the usual record of the operation; the file system is
  untouched when \<^verbatim>\<open>open\<close> failed, and the task file is left truncated, holding an
  incomplete text, when \<^verbatim>\<open>json.dump\<close> failed.
\<close>

theorem facade_error_logged:
  assumes "write_error w (tasks_file s) = Some f"
  shows "fst (add_task task s w) = Returns () \<and>
         tasks (fst (snd (add_task task s w))) = AList.update (task_id task) task (tasks s) \<and>
         logged (snd (snd (add_task task s w))) =
           logged w @ [(ERROR, Failed_to_save (failure_exn f)), (INFO, Added_task (task_id task))] \<and>
         files (snd (snd (add_task task s w))) = file_after f (tasks_file s) (files w) \<and>
         (tid \<in> fst ` set (tasks s) \<longrightarrow>
            fst (remove_task tid s w) = Returns True \<and>
            tasks (fst (snd (remove_task tid s w))) = AList.delete tid (tasks s) \<and>
            logged (snd (snd (remove_task tid s w))) =
              logged w @ [(ERROR, Failed_to_save (failure_exn f)), (INFO, Removed_task tid)] \<and>
            files (snd (snd (remove_task tid s w))) = file_after f (tasks_file s) (files w))"
proof -
  let ?sa = "s\<lparr>tasks := AList.update (task_id task) task (tasks s)\<rparr>"
  let ?sr = "s\<lparr>tasks := AList.delete tid (tasks s)\<rparr>"
  have fa: "write_error w (tasks_file ?sa) = Some f" and fr: "write_error w (tasks_file ?sr) = Some f"
    using assms by simp_all
  note a = save_tasks_fails [OF fa] and r = save_tasks_fails [OF fr]
  have add: "fst (add_task task s w) = Returns () \<and>
         tasks (fst (snd (add_task task s w))) = AList.update (task_id task) task (tasks s) \<and>
         logged (snd (snd (add_task task s w))) =
           logged w @ [(ERROR, Failed_to_save (failure_exn f)), (INFO, Added_task (task_id task))] \<and>
         files (snd (snd (add_task task s w))) = file_after f (tasks_file s) (files w)"
    using a by (cases "save_tasks ?sa w") (simp add: add_task_def Let_def logger_def)
  have rem: "fst (remove_task tid s w) = Returns True \<and>
            tasks (fst (snd (remove_task tid s w))) = AList.delete tid (tasks s) \<and>
            logged (snd (snd (remove_task tid s w))) =
              logged w @ [(ERROR, Failed_to_save (failure_exn f)), (INFO, Removed_task tid)] \<and>
            files (snd (snd (remove_task tid s w))) = file_after f (tasks_file s) (files w)"
    if "tid \<in> fst ` set (tasks s)"
    using r that by (cases "save_tasks ?sr w") (simp add: remove_task_def Let_def logger_def)
  from add rem show ?thesis by blast
qed

theorem facade_error_logged_witness:
  "fst (add_task (ex_task ''n'' PENDING (Some (Naive 5))) (ex_scheduler ex_tasks1 (Returned True))
          ex_fulldisk_world) = Returns () \<and>
   get_task ''n'' (fst (snd (add_task (ex_task ''n'' PENDING (Some (Naive 5)))
       (ex_scheduler ex_tasks1 (Returned True)) ex_fulldisk_world)))
     = Some (ex_task ''n'' PENDING (Some (Naive 5))) \<and>
   logged (snd (snd (add_task (ex_task ''n'' PENDING (Some (Naive 5)))
       (ex_scheduler ex_tasks1 (Returned True)) ex_fulldisk_world)))
     = [(ERROR, Failed_to_save (OSError ''No space left on device'')), (INFO, Added_task ''n'')] \<and>
   files (snd (snd (add_task (ex_task ''n'' PENDING (Some (Naive 5)))
       (ex_scheduler ex_tasks1 (Returned True)) ex_fulldisk_world))) ''scheduled_tasks.json''
     = Unreadable (JSONDecodeError ''Expecting value'') \<and>
   fst (remove_task ''b'' (ex_scheduler ex_tasks1 (Returned True)) ex_readonly_world) = Returns True \<and>
   files (snd (snd (remove_task ''b'' (ex_scheduler ex_tasks1 (Returned True)) ex_readonly_world)))
     = files ex_readonly_world"
proof -
  let ?s = "ex_scheduler ex_tasks1 (Returned True)"
  have h: "write_error ex_fulldisk_world (tasks_file ?s)
      = Some (Dump_fails (OSError ''No space left on device'') ''Expecting value'')"
    and h': "write_error ex_readonly_world (tasks_file ?s) = Some (Open_fails ''Permission denied'')"
    by (simp_all add: ex_fulldisk_world_def ex_readonly_world_def)
  have b: "''b'' \<in> fst ` set (tasks ?s)"
    by (simp add: ex_scheduler_def ex_tasks1_def ex_task_def)
  have n: "task_id (ex_task ''n'' PENDING (Some (Naive 5))) = ''n''" by (simp add: ex_task_def)
  have l: "logged ex_fulldisk_world = []" by (simp add: ex_fulldisk_world_def ex_world_def)
  have t: "tasks_file ?s = ''scheduled_tasks.json''" by (simp add: ex_scheduler_def)
  from facade_error_logged [OF h, of "ex_task ''n'' PENDING (Some (Naive 5))" "''b''"]
    facade_error_logged [OF h', of "ex_task ''n'' PENDING (Some (Naive 5))" "''b''"] b n l t
  show ?thesis by (simp add: get_task_def update_conv failure_exn_def file_after_def)
qed

subsection \<open>A pending task without a next run\<close>



end
